theory Spec2Isabelle
  imports Main "HOL-Library.AList" "HOL-Library.Sublist" "HOL-Library.Multiset"
begin

section \<open>Strings and regular expressions used by the sources\<close>

text \<open>
  A JavaScript string is a sequence of code units; a \<^typ>\<open>char\<close> stands for one code
  unit. The class \<^verbatim>\<open>\w\<close> of a JavaScript regular expression (no unicode flag) is
  \<^verbatim>\<open>[A-Za-z0-9_]\<close>.
\<close>

definition isWordChar :: "char \<Rightarrow> bool" where
  "isWordChar c =
     (let n = (of_char c :: nat)
      in (48 \<le> n \<and> n \<le> 57) \<or> (65 \<le> n \<and> n \<le> 90) \<or> (97 \<le> n \<and> n \<le> 122) \<or> n = 95)"

text \<open>An identifier: what \<^verbatim>\<open>\w+\<close> matches as a whole.\<close>

definition isIdentifier :: "string \<Rightarrow> bool" where
  "isIdentifier s = (s \<noteq> [] \<and> list_all isWordChar s)"

text \<open>\<^verbatim>\<open>String.prototype.includes\<close>: the needle occurs at some offset.\<close>

fun includes_str :: "string \<Rightarrow> string \<Rightarrow> bool" where
  "includes_str [] sub = (sub = [])"
| "includes_str (c # cs) sub = (prefix sub (c # cs) \<or> includes_str cs sub)"

text \<open>
  The regular expression \<^verbatim>\<open>/Variable '(\w+)'/\<close> tried at the head of a string:
  the literal, then the longest run of word characters (giving a shorter run back never
  helps, the character after it is a word character again), then the closing quote.
\<close>

definition matchVariableHere :: "string \<Rightarrow> string option" where
  "matchVariableHere s =
     (if prefix (''Variable '' @ [CHR 0x27]) s
      then (let rest = drop 10 s;
                w = takeWhile isWordChar rest;
                after = dropWhile isWordChar rest
            in if w \<noteq> [] \<and> prefix [CHR 0x27] after then Some w else None)
      else None)"

text \<open>\<^verbatim>\<open>message.match(/Variable '(\w+)'/)\<close>: the leftmost match; the result is group 1.\<close>

fun matchVariable :: "string \<Rightarrow> string option" where
  "matchVariable [] = matchVariableHere []"
| "matchVariable (c # cs) =
     (case matchVariableHere (c # cs) of
        Some w \<Rightarrow> Some w
      | None \<Rightarrow> matchVariable cs)"

section \<open>The symbol index (import/symbolIndex)\<close>

text \<open>
  The declarations of \<^verbatim>\<open>ExportStatement\<close> and \<^verbatim>\<open>ImportStatement\<close> belong to the
  import parser; the index reads the fields below. Fields of different interfaces that share
  a name in the source carry a prefix here.
\<close>

datatype Uri = Uri (fsPath: string)

record Position =
  line :: nat
  character :: nat

record Range =
  r_start :: Position
  r_end :: Position

record ExportStatement =
  symbolName :: string
  symbolType :: string
  e_range :: Range

record ImportedSymbol =
  sym_name :: string
  sym_alias :: "string option"

record ImportStatement =
  moduleName :: string
  isWildcard :: bool
  importType :: string
  symbols :: "ImportedSymbol list"

record ModuleInfo =
  m_uri :: Uri
  m_name :: string
  m_exports :: "ExportStatement list"
  m_imports :: "ImportStatement list"
  m_indexed :: bool
  m_lastModified :: nat

record Location =
  l_uri :: Uri
  l_range :: Range

record SymbolInfo =
  s_name :: string
  s_moduleName :: string
  s_moduleUri :: Uri
  s_type :: string
  s_location :: Location

text \<open>
  A JavaScript \<^verbatim>\<open>Map\<close> iterates in insertion order, \<^verbatim>\<open>set\<close> on a present key keeps
  the key's place, \<^verbatim>\<open>delete\<close> removes it: an association list with \<^const>\<open>map_of\<close>
  for \<^verbatim>\<open>get\<close>, \<^const>\<open>AList.update\<close> for \<^verbatim>\<open>set\<close> and \<^const>\<open>AList.delete\<close>
  for \<^verbatim>\<open>delete\<close>.
\<close>

type_synonym ('k, 'v) jsmap = "('k \<times> 'v) list"

record SymbolIndex =
  modules :: "(string, ModuleInfo) jsmap"
  symbolsByModule :: "(string, SymbolInfo list) jsmap"
  symbolsByName :: "(string, SymbolInfo list) jsmap"
  wildcardImportsByDocument :: "(string, string list) jsmap"

definition emptyIndex :: SymbolIndex where
  "emptyIndex = \<lparr>modules = [], symbolsByModule = [], symbolsByName = [],
                  wildcardImportsByDocument = []\<rparr>"

definition indexWildcardImports :: "SymbolIndex \<Rightarrow> Uri \<Rightarrow> ImportStatement list \<Rightarrow> SymbolIndex" where
  "indexWildcardImports idx uri imps =
     (let wildcardModules = map moduleName (filter isWildcard imps)
      in if length wildcardModules > 0
         then idx\<lparr>wildcardImportsByDocument :=
                    AList.update (fsPath uri) wildcardModules (wildcardImportsByDocument idx)\<rparr>
         else idx\<lparr>wildcardImportsByDocument :=
                    AList.delete (fsPath uri) (wildcardImportsByDocument idx)\<rparr>)"

definition toSymbol :: "ModuleInfo \<Rightarrow> ExportStatement \<Rightarrow> SymbolInfo" where
  "toSymbol moduleInfo exportStmt =
     \<lparr>s_name = symbolName exportStmt,
      s_moduleName = m_name moduleInfo,
      s_moduleUri = m_uri moduleInfo,
      s_type = symbolType exportStmt,
      s_location = \<lparr>l_uri = m_uri moduleInfo, l_range = e_range exportStmt\<rparr>\<rparr>"

text \<open>One turn of the loop of \<^verbatim>\<open>indexSymbols\<close> on the name-based index.\<close>

definition addByName :: "SymbolInfo \<Rightarrow> (string, SymbolInfo list) jsmap \<Rightarrow> (string, SymbolInfo list) jsmap" where
  "addByName symbol byName =
     (let byName1 = (if map_of byName (s_name symbol) = None
                     then AList.update (s_name symbol) [] byName else byName)
      in case map_of byName1 (s_name symbol) of
           None \<Rightarrow> byName1
         | Some syms \<Rightarrow> AList.update (s_name symbol) (syms @ [symbol]) byName1)"

definition indexSymbols :: "SymbolIndex \<Rightarrow> ModuleInfo \<Rightarrow> SymbolIndex" where
  "indexSymbols idx moduleInfo =
     (let syms = map (toSymbol moduleInfo) (m_exports moduleInfo)
      in idx\<lparr>symbolsByName := fold addByName syms (symbolsByName idx),
              symbolsByModule := AList.update (m_name moduleInfo) syms (symbolsByModule idx)\<rparr>)"

text \<open>
  \<^verbatim>\<open>indexFile\<close> opens the document and asks the module resolver and the import parser
  for the module name, the exports and the imports. That scan is an argument here:
  \<^const>\<open>None\<close> when any of it throws (the \<^verbatim>\<open>catch\<close> logs and leaves the index as it
  is). \<^verbatim>\<open>now\<close> is the value of \<^verbatim>\<open>Date.now()\<close>.
\<close>

type_synonym scan = "(string \<times> ExportStatement list \<times> ImportStatement list) option"

definition indexFile :: "SymbolIndex \<Rightarrow> Uri \<Rightarrow> scan \<Rightarrow> nat \<Rightarrow> SymbolIndex" where
  "indexFile idx uri scanned now =
     (case scanned of
        None \<Rightarrow> idx
      | Some (modName, exps, imps) \<Rightarrow>
          (let moduleInfo = \<lparr>m_uri = uri, m_name = modName, m_exports = exps, m_imports = imps,
                             m_indexed = True, m_lastModified = now\<rparr>;
               idx1 = idx\<lparr>modules := AList.update (fsPath uri) moduleInfo (modules idx)\<rparr>;
               idx2 = indexSymbols idx1 moduleInfo
           in indexWildcardImports idx2 uri imps))"

text \<open>One turn of the loop of \<^verbatim>\<open>removeFile\<close> on the name-based index.\<close>

definition removeByName :: "Uri \<Rightarrow> ExportStatement \<Rightarrow> (string, SymbolInfo list) jsmap \<Rightarrow> (string, SymbolInfo list) jsmap" where
  "removeByName uri exportStmt byName =
     (case map_of byName (symbolName exportStmt) of
        None \<Rightarrow> byName
      | Some syms \<Rightarrow>
          (let filtered = filter (\<lambda>s. fsPath (s_moduleUri s) \<noteq> fsPath uri) syms
           in if length filtered > 0
              then AList.update (symbolName exportStmt) filtered byName
              else AList.delete (symbolName exportStmt) byName))"

definition removeFile :: "SymbolIndex \<Rightarrow> Uri \<Rightarrow> SymbolIndex" where
  "removeFile idx uri =
     (case map_of (modules idx) (fsPath uri) of
        None \<Rightarrow> idx
      | Some moduleInfo \<Rightarrow>
          idx\<lparr>symbolsByModule := AList.delete (m_name moduleInfo) (symbolsByModule idx),
              symbolsByName := fold (removeByName uri) (m_exports moduleInfo) (symbolsByName idx),
              modules := AList.delete (fsPath uri) (modules idx)\<rparr>)"

definition getModuleExports :: "SymbolIndex \<Rightarrow> string \<Rightarrow> SymbolInfo list" where
  "getModuleExports idx modName =
     (case map_of (symbolsByModule idx) modName of None \<Rightarrow> [] | Some syms \<Rightarrow> syms)"

definition getSymbolsByName :: "SymbolIndex \<Rightarrow> string \<Rightarrow> SymbolInfo list" where
  "getSymbolsByName idx n =
     (case map_of (symbolsByName idx) n of None \<Rightarrow> [] | Some syms \<Rightarrow> syms)"

definition getModuleByName :: "SymbolIndex \<Rightarrow> string \<Rightarrow> ModuleInfo option" where
  "getModuleByName idx modName = find (\<lambda>m. m_name m = modName) (map snd (modules idx))"

definition getModuleByUri :: "SymbolIndex \<Rightarrow> Uri \<Rightarrow> ModuleInfo option" where
  "getModuleByUri idx uri = map_of (modules idx) (fsPath uri)"

definition isSymbolExportedBy :: "SymbolIndex \<Rightarrow> string \<Rightarrow> string \<Rightarrow> bool" where
  "isSymbolExportedBy idx symName modName =
     list_ex (\<lambda>s. s_name s = symName) (getModuleExports idx modName)"

definition getWildcardImportedSymbols :: "SymbolIndex \<Rightarrow> Uri \<Rightarrow> SymbolInfo list" where
  "getWildcardImportedSymbols idx uri =
     (case map_of (wildcardImportsByDocument idx) (fsPath uri) of
        None \<Rightarrow> []
      | Some wildcardModules \<Rightarrow>
          if length wildcardModules = 0 then []
          else concat (map (getModuleExports idx) wildcardModules))"

definition isSymbolFromWildcardImport :: "SymbolIndex \<Rightarrow> Uri \<Rightarrow> string \<Rightarrow> bool" where
  "isSymbolFromWildcardImport idx uri symName =
     list_ex (\<lambda>s. s_name s = symName) (getWildcardImportedSymbols idx uri)"

definition getWildcardImportSourceModule :: "SymbolIndex \<Rightarrow> Uri \<Rightarrow> string \<Rightarrow> string option" where
  "getWildcardImportSourceModule idx uri symName =
     (case map_of (wildcardImportsByDocument idx) (fsPath uri) of
        None \<Rightarrow> None
      | Some wildcardModules \<Rightarrow> find (isSymbolExportedBy idx symName) wildcardModules)"

text \<open>
  \<^verbatim>\<open>detectCircularDependencies\<close>: the closure \<^verbatim>\<open>dfs\<close> works on three variables of the
  enclosing call, the state below. \<^verbatim>\<open>path.indexOf\<close> is only reached for a module on the
  path. The recursion of \<^verbatim>\<open>dfs\<close> is bounded here by its depth: \<^const>\<open>None\<close> means the
  bound was too small, never a result of the source.
\<close>

record DfsState =
  cycles :: "string list list"
  visited :: "string set"
  path :: "string list"

definition indexOf :: "'a list \<Rightarrow> 'a \<Rightarrow> nat" where
  "indexOf xs x = length (takeWhile (\<lambda>y. y \<noteq> x) xs)"

fun dfs :: "nat \<Rightarrow> SymbolIndex \<Rightarrow> string \<Rightarrow> DfsState \<Rightarrow> DfsState option"
  and dfsImports :: "nat \<Rightarrow> SymbolIndex \<Rightarrow> ImportStatement list \<Rightarrow> DfsState \<Rightarrow> DfsState option"
where
  "dfs 0 idx modName st = None"
| "dfs (Suc depth) idx modName st =
     (if modName \<in> set (path st)
      then (let cycleStart = indexOf (path st) modName
            in Some (st\<lparr>cycles := cycles st @ [drop cycleStart (path st) @ [modName]]\<rparr>))
      else if modName \<in> visited st then Some st
      else (let st1 = st\<lparr>visited := insert modName (visited st), path := path st @ [modName]\<rparr>
            in case (case getModuleByName idx modName of
                       None \<Rightarrow> Some st1
                     | Some m \<Rightarrow> dfsImports depth idx (m_imports m) st1) of
                 None \<Rightarrow> None
               | Some st2 \<Rightarrow> Some (st2\<lparr>path := butlast (path st2)\<rparr>)))"
| "dfsImports depth idx [] st = Some st"
| "dfsImports depth idx (importStmt # rest) st =
     (case dfs depth idx (moduleName importStmt) st of
        None \<Rightarrow> None
      | Some st' \<Rightarrow> dfsImports depth idx rest st')"

definition detectCircularDependencies :: "nat \<Rightarrow> SymbolIndex \<Rightarrow> string \<Rightarrow> string list list option" where
  "detectCircularDependencies depth idx startModule =
     map_option cycles (dfs depth idx startModule \<lparr>cycles = [], visited = {}, path = []\<rparr>)"

text \<open>The names an import of the index points to.\<close>

definition importTargets :: "SymbolIndex \<Rightarrow> string set" where
  "importTargets idx =
     set (concat (map (\<lambda>entry. map moduleName (m_imports (snd entry))) (modules idx)))"

text \<open>
  \<^verbatim>\<open>getUnusedImports\<close> builds two regular expressions from a name: \<^verbatim>\<open>\bNAME\b\<close> with
  the flag \<^verbatim>\<open>g\<close>, whose matches are counted, and \<^verbatim>\<open>\bNAME\.\<close>, which is tested. The
  name goes into the pattern as it is. A name without a syntax character of the pattern
  language stands for itself, code unit by code unit, and the functions below match it so
  (the empty name too). \<^verbatim>\<open>\b\<close> holds between two neighbours of which exactly one is
  a word character; the ends of the text count as no word character.
\<close>

definition isSyntaxChar :: "char \<Rightarrow> bool" where
  "isSyntaxChar c = (c \<in> set (''^$.*+?()[]{}|'' @ [CHR 0x5C]))"

definition plainName :: "string \<Rightarrow> bool" where
  "plainName nm = (\<not> list_ex isSyntaxChar nm)"

definition isWordOpt :: "char option \<Rightarrow> bool" where
  "isWordOpt c = (case c of None \<Rightarrow> False | Some x \<Rightarrow> isWordChar x)"

definition wordBoundary :: "char option \<Rightarrow> char option \<Rightarrow> bool" where
  "wordBoundary prev after = (isWordOpt prev \<noteq> isWordOpt after)"

definition headOpt :: "string \<Rightarrow> char option" where
  "headOpt s = (case s of [] \<Rightarrow> None | c # _ \<Rightarrow> Some c)"

definition lastOpt :: "char option \<Rightarrow> string \<Rightarrow> char option" where
  "lastOpt prev s = (if s = [] then prev else Some (last s))"

definition matchWordHere :: "string \<Rightarrow> char option \<Rightarrow> string \<Rightarrow> bool" where
  "matchWordHere nm prev s =
     (prefix nm s \<and> wordBoundary prev (headOpt s)
      \<and> wordBoundary (lastOpt prev nm) (headOpt (drop (length nm) s)))"

text \<open>
  \<^verbatim>\<open>text.match(symbolRegex)\<close> with the flag \<^verbatim>\<open>g\<close>: the matches from left to right,
  the search going on behind each match (\<open>skip\<close> counts the characters of the last match
  still to pass). The result is their number; \<^verbatim>\<open>null\<close> is the number zero.
\<close>

fun countMatches :: "string \<Rightarrow> nat \<Rightarrow> char option \<Rightarrow> string \<Rightarrow> nat" where
  "countMatches nm skip prev [] = (if skip = 0 \<and> matchWordHere nm prev [] then 1 else 0)"
| "countMatches nm skip prev (c # cs) =
     (if skip > 0 then countMatches nm (skip - 1) (Some c) cs
      else if matchWordHere nm prev (c # cs)
           then 1 + countMatches nm (length nm - 1) (Some c) cs
           else countMatches nm 0 (Some c) cs)"

definition matchAccessHere :: "string \<Rightarrow> char option \<Rightarrow> string \<Rightarrow> bool" where
  "matchAccessHere nm prev s =
     (prefix (nm @ ''.'') s \<and> wordBoundary prev (headOpt s))"

fun testAccess :: "string \<Rightarrow> char option \<Rightarrow> string \<Rightarrow> bool" where
  "testAccess nm prev [] = False"
| "testAccess nm prev (c # cs) =
     (matchAccessHere nm prev (c # cs) \<or> testAccess nm (Some c) cs)"

text \<open>\<^verbatim>\<open>symbol.alias || symbol.name\<close>: an empty alias is falsy.\<close>

definition symbolLocalName :: "ImportedSymbol \<Rightarrow> string" where
  "symbolLocalName isym =
     (case sym_alias isym of
        None \<Rightarrow> sym_name isym
      | Some a \<Rightarrow> if a = [] then sym_name isym else a)"

text \<open>
  A name with a syntax character makes a pattern of its own meaning, or none: what
  \<^verbatim>\<open>new RegExp\<close> and the match do with it is the platform's and an argument here, the
  number of matches of \<^verbatim>\<open>\bNAME\b\<close> and the result of the test of \<^verbatim>\<open>\bNAME\.\<close> for
  a name and a text, \<^const>\<open>None\<close> where the constructor throws its syntax error.
\<close>

datatype error = IllegalArgument | TypeError | SyntaxError

record RegExpHost =
  matchCount :: "string \<Rightarrow> string \<Rightarrow> nat option"
  accessTest :: "string \<Rightarrow> string \<Rightarrow> bool option"

definition countSymbol :: "RegExpHost \<Rightarrow> string \<Rightarrow> string \<Rightarrow> nat option" where
  "countSymbol host nm txt =
     (if plainName nm then Some (countMatches nm 0 None txt) else matchCount host nm txt)"

definition testModule :: "RegExpHost \<Rightarrow> string \<Rightarrow> string \<Rightarrow> bool option" where
  "testModule host nm txt =
     (if plainName nm then Some (testAccess nm None txt) else accessTest host nm txt)"

text \<open>
  The loop over the symbols of a named import: it stops at the first symbol that is used,
  and a syntax error ends the whole call.
\<close>

fun allUnused :: "RegExpHost \<Rightarrow> string \<Rightarrow> ImportedSymbol list \<Rightarrow> error + bool" where
  "allUnused host txt [] = Inr True"
| "allUnused host txt (isym # rest) =
     (case countSymbol host (symbolLocalName isym) txt of
        None \<Rightarrow> Inl SyntaxError
      | Some n \<Rightarrow> if n > 1 then Inr False else allUnused host txt rest)"

definition isUnusedImport :: "RegExpHost \<Rightarrow> string \<Rightarrow> ImportStatement \<Rightarrow> error + bool" where
  "isUnusedImport host txt importStmt =
     (if isWildcard importStmt then Inr False
      else if importType importStmt = ''default''
           then (case testModule host (moduleName importStmt) txt of
                   None \<Rightarrow> Inl SyntaxError
                 | Some used \<Rightarrow> Inr (\<not> used))
      else if importType importStmt = ''named''
           then allUnused host txt (symbols importStmt)
      else Inr False)"

text \<open>
  The imports are the import parser's for the document, the text is \<^verbatim>\<open>document.getText()\<close>.
  The result is the array \<^verbatim>\<open>unused\<close>, or the error that rejects the promise.
\<close>

fun getUnusedImports :: "RegExpHost \<Rightarrow> ImportStatement list \<Rightarrow> string \<Rightarrow> error + ImportStatement list" where
  "getUnusedImports host [] txt = Inr []"
| "getUnusedImports host (importStmt # rest) txt =
     (case isUnusedImport host txt importStmt of
        Inl e \<Rightarrow> Inl e
      | Inr isUnused \<Rightarrow>
          (case getUnusedImports host rest txt of
             Inl e \<Rightarrow> Inl e
           | Inr unused \<Rightarrow> Inr (if isUnused then importStmt # unused else unused)))"

text \<open>An import none of whose names has a syntax character.\<close>

definition plainImport :: "ImportStatement \<Rightarrow> bool" where
  "plainImport importStmt =
     (plainName (moduleName importStmt)
      \<and> list_all (\<lambda>isym. plainName (symbolLocalName isym)) (symbols importStmt))"

text \<open>
  The words of a text are its longest runs of word characters; a name occurs in a text as
  often as it is one of the words.
\<close>

function wordsOf :: "string \<Rightarrow> string list" where
  "wordsOf [] = []"
| "wordsOf (c # cs) =
     (if isWordChar c then takeWhile isWordChar (c # cs) # wordsOf (dropWhile isWordChar cs)
      else wordsOf cs)"
  by pat_completeness auto
termination
  by (relation "measure length") (simp_all add: length_dropWhile_le less_Suc_eq_le)

definition occurrences :: "string \<Rightarrow> string \<Rightarrow> nat" where
  "occurrences nm txt = count_list (wordsOf txt) nm"

section \<open>The diagnostic aggregator (alpha/DiagnosticAggregator)\<close>

text \<open>
  \<^verbatim>\<open>DiagnosticSource\<close> is the type of the keys of \<^verbatim>\<open>SOURCE_PRIORITY\<close>; a lower number
  is a higher priority.
\<close>

datatype DiagnosticSource = Alpha | Lsp | Static | Custom

fun SOURCE_PRIORITY :: "DiagnosticSource \<Rightarrow> nat" where
  "SOURCE_PRIORITY Alpha = 1"
| "SOURCE_PRIORITY Lsp = 2"
| "SOURCE_PRIORITY Static = 3"
| "SOURCE_PRIORITY Custom = 4"

datatype VsSeverity = Error | Warning | Information | Hint

text \<open>
  A \<^verbatim>\<open>vscode.Diagnostic\<close>; its code, when set, is the pair of the value and the target.
  An \<^verbatim>\<open>AlphaDiagnostic\<close> is what the interpreter reports: positions count from one and
  are whatever number the report holds, the severity is the report's word.
\<close>

record Diagnostic =
  d_range :: Range
  d_message :: string
  d_severity :: VsSeverity
  d_source :: "string option"
  d_code :: "(string \<times> string) option"

record AlphaDiagnostic =
  a_file :: string
  a_line :: int
  a_column :: int
  a_endLine :: int
  a_endColumn :: int
  a_message :: string
  a_severity :: string
  a_extra :: "string option"
  a_source :: "string option"
  a_code :: "string option"

record AggregatedDiagnostic =
  diagnostic :: Diagnostic
  source :: DiagnosticSource
  priority :: nat

text \<open>
  The aggregator's two stores: the editor's collection of each source (diagnostics by
  document) and its own map from a normalized path to the lists of each source.
\<close>

record DiagnosticAggregator =
  collections :: "(DiagnosticSource, (Uri, Diagnostic list) jsmap) jsmap"
  diagnostics :: "(string, (DiagnosticSource, Diagnostic list) jsmap) jsmap"

definition newAggregator :: DiagnosticAggregator where
  "newAggregator =
     \<lparr>collections = [(Alpha, []), (Lsp, []), (Static, []), (Custom, [])], diagnostics = []\<rparr>"

text \<open>
  \<^verbatim>\<open>toLowerCase\<close> on code units below 256: the letters A to Z and those from U+00C0 to
  U+00DE, the multiplication sign U+00D7 apart, go 32 up; the other code units stay.
\<close>

definition lowerChar :: "char \<Rightarrow> char" where
  "lowerChar c =
     (let n = (of_char c :: nat)
      in if (65 \<le> n \<and> n \<le> 90) \<or> (192 \<le> n \<and> n \<le> 222 \<and> n \<noteq> 215)
         then char_of (n + 32) else c)"

definition toLowerCase :: "string \<Rightarrow> string" where
  "toLowerCase s = map lowerChar s"

definition normalizeUri :: "Uri \<Rightarrow> string" where
  "normalizeUri uri = map (\<lambda>c. if c = CHR 0x5C then CHR ''/'' else c) (toLowerCase (fsPath uri))"

text \<open>\<^verbatim>\<open>path.normalize\<close> is the platform's; it is the argument \<open>pathNormalize\<close>.\<close>

definition normalizeFilePath :: "(string \<Rightarrow> string) \<Rightarrow> string \<Rightarrow> string" where
  "normalizeFilePath pathNormalize filePath = toLowerCase (pathNormalize filePath)"

definition setDiagnostics :: "DiagnosticAggregator \<Rightarrow> Uri \<Rightarrow> DiagnosticSource \<Rightarrow> Diagnostic list \<Rightarrow> DiagnosticAggregator" where
  "setDiagnostics agg uri src diags =
     (let key = normalizeUri uri;
          store1 = (case map_of (diagnostics agg) key of
                      None \<Rightarrow> AList.update key [] (diagnostics agg)
                    | Some _ \<Rightarrow> diagnostics agg);
          fileDiagnostics = (case map_of store1 key of None \<Rightarrow> [] | Some fd \<Rightarrow> fd);
          store2 = AList.update key (AList.update src diags fileDiagnostics) store1;
          colls = (case map_of (collections agg) src of
                     None \<Rightarrow> collections agg
                   | Some collection \<Rightarrow>
                       AList.update src (AList.update uri diags collection) (collections agg))
      in agg\<lparr>diagnostics := store2, collections := colls\<rparr>)"

definition isWildcardImportSymbolWarning :: "SymbolIndex \<Rightarrow> Uri \<Rightarrow> AlphaDiagnostic \<Rightarrow> bool" where
  "isWildcardImportSymbolWarning idx uri d =
     (if \<not> includes_str (a_message d) ''appears to never be assigned'' then False
      else case matchVariable (a_message d) of
             None \<Rightarrow> False
           | Some variableName \<Rightarrow> isSymbolFromWildcardImport idx uri variableName)"

definition toVsCodeSeverity :: "string \<Rightarrow> VsSeverity" where
  "toVsCodeSeverity sev =
     (if sev = ''error'' then Error
      else if sev = ''warning'' then Warning
      else if sev = ''info'' then Information
      else if sev = ''hint'' then Hint
      else Error)"

text \<open>\<^verbatim>\<open>x || y\<close> on a string that may be missing: the empty string is falsy.\<close>

definition truthy :: "string option \<Rightarrow> bool" where
  "truthy s = (case s of None \<Rightarrow> False | Some x \<Rightarrow> x \<noteq> [])"

text \<open>
  The editor's constructors: \<^verbatim>\<open>vscode.Position\<close> refuses a negative number,
  \<^verbatim>\<open>vscode.Range\<close> of four numbers makes the two positions and puts the one first that
  is before the other, and \<^verbatim>\<open>vscode.Diagnostic\<close> refuses an empty message.
\<close>

definition mkPosition :: "int \<Rightarrow> int \<Rightarrow> error + Position" where
  "mkPosition l c =
     (if l < 0 \<or> c < 0 then Inl IllegalArgument
      else Inr \<lparr>line = nat l, character = nat c\<rparr>)"

definition isBefore :: "Position \<Rightarrow> Position \<Rightarrow> bool" where
  "isBefore p q = (line p < line q \<or> (line p = line q \<and> character p < character q))"

definition mkRange :: "int \<Rightarrow> int \<Rightarrow> int \<Rightarrow> int \<Rightarrow> error + Range" where
  "mkRange startLn startCol endLn endCol =
     (case mkPosition startLn startCol of
        Inl e \<Rightarrow> Inl e
      | Inr p \<Rightarrow>
          (case mkPosition endLn endCol of
             Inl e \<Rightarrow> Inl e
           | Inr q \<Rightarrow>
               Inr (if isBefore p q then \<lparr>r_start = p, r_end = q\<rparr>
                    else \<lparr>r_start = q, r_end = p\<rparr>)))"

definition mkDiagnostic :: "Range \<Rightarrow> string \<Rightarrow> VsSeverity \<Rightarrow> error + Diagnostic" where
  "mkDiagnostic rng msg sev =
     (if msg = [] then Inl TypeError
      else Inr \<lparr>d_range = rng, d_message = msg, d_severity = sev,
                d_source = None, d_code = None\<rparr>)"

text \<open>\<^verbatim>\<open>Math.max(0, d.endColumn - 1) || 999\<close> is 999 where the maximum is zero.\<close>

definition endCharacter :: "AlphaDiagnostic \<Rightarrow> int" where
  "endCharacter d = (if max 0 (a_endColumn d - 1) = 0 then 999 else max 0 (a_endColumn d - 1))"

definition alphaMessage :: "AlphaDiagnostic \<Rightarrow> string" where
  "alphaMessage d =
     (if truthy (a_extra d)
      then a_message d @ [CHR 0x0A] @ ''Specifically: '' @ the (a_extra d)
      else a_message d)"

definition convertAlphaDiagnostic :: "AlphaDiagnostic \<Rightarrow> error + Diagnostic" where
  "convertAlphaDiagnostic d =
     (case mkRange (max 0 (a_line d - 1)) (max 0 (a_column d - 1))
                   (max 0 (a_endLine d - 1)) (endCharacter d) of
        Inl e \<Rightarrow> Inl e
      | Inr rng \<Rightarrow>
          (case mkDiagnostic rng (alphaMessage d) (toVsCodeSeverity (a_severity d)) of
             Inl e \<Rightarrow> Inl e
           | Inr diag \<Rightarrow>
               Inr (diag\<lparr>d_source := (if truthy (a_source d) then a_source d
                                       else Some ''ahk-alpha''),
                         d_code := (if truthy (a_code d)
                                    then Some (the (a_code d),
                                               ''https://www.autohotkey.com/docs/v2/'')
                                    else None)\<rparr>)))"

text \<open>\<^verbatim>\<open>.map(d => this.convertAlphaDiagnostic(d))\<close>: the first error ends the call.\<close>

fun convertAll :: "AlphaDiagnostic list \<Rightarrow> error + Diagnostic list" where
  "convertAll [] = Inr []"
| "convertAll (d # rest) =
     (case convertAlphaDiagnostic d of
        Inl e \<Rightarrow> Inl e
      | Inr diag \<Rightarrow>
          (case convertAll rest of
             Inl e \<Rightarrow> Inl e
           | Inr diags \<Rightarrow> Inr (diag # diags)))"

text \<open>
  The result of \<^verbatim>\<open>setAlphaDiagnostics\<close> is the aggregator after the call, or the error
  thrown, in which case nothing was stored.
\<close>

definition setAlphaDiagnostics ::
  "(string \<Rightarrow> string) \<Rightarrow> SymbolIndex \<Rightarrow> DiagnosticAggregator \<Rightarrow> Uri \<Rightarrow> AlphaDiagnostic list
     \<Rightarrow> error + DiagnosticAggregator" where
  "setAlphaDiagnostics pathNormalize idx agg uri alphaDiagnostics =
     (case convertAll
             (filter (\<lambda>d. \<not> isWildcardImportSymbolWarning idx uri d)
               (filter (\<lambda>d. normalizeFilePath pathNormalize (a_file d)
                               = normalizeFilePath pathNormalize (fsPath uri))
                  alphaDiagnostics)) of
        Inl e \<Rightarrow> Inl e
      | Inr diags \<Rightarrow> Inr (setDiagnostics agg uri Alpha diags))"

text \<open>
  \<^verbatim>\<open>Array.prototype.sort\<close> with a comparison function is stable: an element goes
  before another when the function is negative, and two elements on which it is zero keep
  their order.
\<close>

fun insertSorted :: "('a \<Rightarrow> 'a \<Rightarrow> int) \<Rightarrow> 'a \<Rightarrow> 'a list \<Rightarrow> 'a list" where
  "insertSorted cmp x [] = [x]"
| "insertSorted cmp x (y # ys) =
     (if cmp x y \<le> 0 then x # y # ys else y # insertSorted cmp x ys)"

definition sortWith :: "('a \<Rightarrow> 'a \<Rightarrow> int) \<Rightarrow> 'a list \<Rightarrow> 'a list" where
  "sortWith cmp xs = foldr (insertSorted cmp) xs []"

definition startLine :: "Diagnostic \<Rightarrow> nat" where
  "startLine d = line (r_start (d_range d))"

definition startCharacter :: "Diagnostic \<Rightarrow> nat" where
  "startCharacter d = character (r_start (d_range d))"

definition compareAggregated :: "AggregatedDiagnostic \<Rightarrow> AggregatedDiagnostic \<Rightarrow> int" where
  "compareAggregated a b =
     (if priority a \<noteq> priority b then int (priority a) - int (priority b)
      else int (startLine (diagnostic a)) - int (startLine (diagnostic b)))"

text \<open>The entries of a file's map in the order of the loops of \<^verbatim>\<open>getDiagnostics\<close>.\<close>

definition collectAggregated :: "(DiagnosticSource, Diagnostic list) jsmap \<Rightarrow> AggregatedDiagnostic list" where
  "collectAggregated fileDiagnostics =
     concat (map (\<lambda>(src, diags).
                    map (\<lambda>d. \<lparr>diagnostic = d, source = src, priority = SOURCE_PRIORITY src\<rparr>) diags)
                 fileDiagnostics)"

definition getDiagnostics :: "DiagnosticAggregator \<Rightarrow> Uri \<Rightarrow> AggregatedDiagnostic list" where
  "getDiagnostics agg uri =
     (case map_of (diagnostics agg) (normalizeUri uri) of
        None \<Rightarrow> []
      | Some fileDiagnostics \<Rightarrow> sortWith compareAggregated (collectAggregated fileDiagnostics))"

definition getDiagnosticsFromSource :: "DiagnosticAggregator \<Rightarrow> Uri \<Rightarrow> DiagnosticSource \<Rightarrow> Diagnostic list" where
  "getDiagnosticsFromSource agg uri src =
     (case map_of (diagnostics agg) (normalizeUri uri) of
        None \<Rightarrow> []
      | Some fileDiagnostics \<Rightarrow>
          (case map_of fileDiagnostics src of None \<Rightarrow> [] | Some diags \<Rightarrow> diags))"

text \<open>A number of a position as JavaScript prints it in a template: its decimal digits.\<close>

fun showNat :: "nat \<Rightarrow> string" where
  "showNat n =
     (if n < 10 then [char_of (48 + n)]
      else showNat (n div 10) @ [char_of (48 + n mod 10)])"

declare showNat.simps [simp del]

definition diagnosticKey :: "Diagnostic \<Rightarrow> string" where
  "diagnosticKey d =
     showNat (startLine d) @ '':'' @ showNat (startCharacter d) @ '':'' @ take 50 (d_message d)"

text \<open>One turn of the loop of \<^verbatim>\<open>getDeduplicatedDiagnostics\<close> on the map \<^verbatim>\<open>seen\<close>.\<close>

definition seeDiagnostic :: "AggregatedDiagnostic \<Rightarrow> (string, Diagnostic) jsmap \<Rightarrow> (string, Diagnostic) jsmap" where
  "seeDiagnostic a seen =
     (let key = diagnosticKey (diagnostic a)
      in if map_of seen key = None then AList.update key (diagnostic a) seen else seen)"

definition getDeduplicatedDiagnostics :: "DiagnosticAggregator \<Rightarrow> Uri \<Rightarrow> Diagnostic list" where
  "getDeduplicatedDiagnostics agg uri =
     map snd (fold seeDiagnostic (getDiagnostics agg uri) [])"

text \<open>
  Notions for the properties of the aggregator: the array \<^verbatim>\<open>result\<close> of
  \<^verbatim>\<open>getDiagnostics\<close> as the loops fill it, before the sort; the order of two entries by
  priority rank first and start line second; the three parts of a diagnostic that its
  key is made of; the key of an aggregated entry; and the shape of a store whose maps hold
  each key once.
\<close>

definition mergedDiagnostics :: "DiagnosticAggregator \<Rightarrow> Uri \<Rightarrow> AggregatedDiagnostic list" where
  "mergedDiagnostics agg uri =
     (case map_of (diagnostics agg) (normalizeUri uri) of
        None \<Rightarrow> []
      | Some fileDiagnostics \<Rightarrow> collectAggregated fileDiagnostics)"

definition rankLineLeq :: "AggregatedDiagnostic \<Rightarrow> AggregatedDiagnostic \<Rightarrow> bool" where
  "rankLineLeq a b =
     (priority a < priority b
      \<or> (priority a = priority b \<and> startLine (diagnostic a) \<le> startLine (diagnostic b)))"

definition dedupKey :: "Diagnostic \<Rightarrow> nat \<times> nat \<times> string" where
  "dedupKey d = (startLine d, startCharacter d, take 50 (d_message d))"

definition keyOf :: "AggregatedDiagnostic \<Rightarrow> string" where
  "keyOf a = diagnosticKey (diagnostic a)"

definition wellFormedStore :: "DiagnosticAggregator \<Rightarrow> bool" where
  "wellFormedStore agg =
     (distinct (map fst (diagnostics agg))
      \<and> list_all (\<lambda>entry. distinct (map fst (snd entry))) (diagnostics agg))"

text \<open>
  The entries of a report that pass the two filters of \<^verbatim>\<open>setAlphaDiagnostics\<close>, and the
  interpreter's message about a variable that is never assigned.
\<close>

definition acceptedAlpha ::
  "(string \<Rightarrow> string) \<Rightarrow> SymbolIndex \<Rightarrow> Uri \<Rightarrow> AlphaDiagnostic list \<Rightarrow> AlphaDiagnostic list" where
  "acceptedAlpha pathNormalize idx uri alphaDiagnostics =
     filter (\<lambda>d. \<not> isWildcardImportSymbolWarning idx uri d)
       (filter (\<lambda>d. normalizeFilePath pathNormalize (a_file d)
                       = normalizeFilePath pathNormalize (fsPath uri))
          alphaDiagnostics)"

definition neverAssignedMessage :: "string \<Rightarrow> string" where
  "neverAssignedMessage nm =
     ''Variable '' @ [CHR 0x27] @ nm @ [CHR 0x27] @ '' appears to never be assigned''"

section \<open>A small workspace\<close>

text \<open>
  The module \<^verbatim>\<open>Arr\<close> exports the function \<^verbatim>\<open>Sum\<close>; the document \<^verbatim>\<open>Main\<close> holds
  \<^verbatim>\<open>import * from Arr\<close>.
\<close>

definition arrUri :: Uri where
  "arrUri = Uri ''/ws/Arr.ahk''"

definition mainUri :: Uri where
  "mainUri = Uri ''/ws/Main.ahk''"

definition sumRange :: Range where
  "sumRange = \<lparr>r_start = \<lparr>line = 2, character = 0\<rparr>, r_end = \<lparr>line = 2, character = 18\<rparr>\<rparr>"

definition arrScan :: scan where
  "arrScan = Some (''Arr'',
                   [\<lparr>symbolName = ''Sum'', symbolType = ''function'', e_range = sumRange\<rparr>],
                   [])"

definition mainScan :: scan where
  "mainScan = Some (''Main'', [],
                    [\<lparr>moduleName = ''Arr'', isWildcard = True, importType = ''wildcard'',
                      symbols = []\<rparr>])"

definition sumSymbol :: SymbolInfo where
  "sumSymbol = \<lparr>s_name = ''Sum'', s_moduleName = ''Arr'', s_moduleUri = arrUri,
                s_type = ''function'',
                s_location = \<lparr>l_uri = arrUri, l_range = sumRange\<rparr>\<rparr>"

definition arrIndex :: SymbolIndex where
  "arrIndex = indexFile emptyIndex arrUri arrScan 0"

definition workspaceIndex :: SymbolIndex where
  "workspaceIndex = indexFile arrIndex mainUri mainScan 0"

text \<open>
  Three modules in a ring: \<^verbatim>\<open>A\<close> imports \<^verbatim>\<open>B\<close>, \<^verbatim>\<open>B\<close> imports \<^verbatim>\<open>C\<close>,
  \<^verbatim>\<open>C\<close> imports \<^verbatim>\<open>A\<close>.
\<close>

definition importOf :: "string \<Rightarrow> ImportStatement" where
  "importOf modName =
     \<lparr>moduleName = modName, isWildcard = False, importType = ''default'', symbols = []\<rparr>"

definition ringIndex :: SymbolIndex where
  "ringIndex =
     indexFile
       (indexFile
          (indexFile emptyIndex (Uri ''/ws/A.ahk'') (Some (''A'', [], [importOf ''B''])) 0)
          (Uri ''/ws/B.ahk'') (Some (''B'', [], [importOf ''C''])) 0)
       (Uri ''/ws/C.ahk'') (Some (''C'', [], [importOf ''A''])) 0"

text \<open>
  A document with the named import \<^verbatim>\<open>import {Sum} from Arr\<close>, once without and once
  with a use of \<^verbatim>\<open>Sum\<close>; a wildcard and a default import of the same module.
\<close>

definition namedSum :: ImportStatement where
  "namedSum = \<lparr>moduleName = ''Arr'', isWildcard = False, importType = ''named'',
               symbols = [\<lparr>sym_name = ''Sum'', sym_alias = None\<rparr>]\<rparr>"

definition wildcardArr :: ImportStatement where
  "wildcardArr = \<lparr>moduleName = ''Arr'', isWildcard = True, importType = ''wildcard'',
                  symbols = []\<rparr>"

definition noRegExpHost :: RegExpHost where
  "noRegExpHost = \<lparr>matchCount = (\<lambda>nm txt. None), accessTest = (\<lambda>nm txt. None)\<rparr>"

definition idleText :: string where
  "idleText = ''import {Sum} from Arr'' @ [CHR 0x0A] @ ''x := 1''"

definition busyText :: string where
  "busyText = ''import {Sum} from Arr'' @ [CHR 0x0A] @ ''x := Sum([1,2,3]) + Arr.Max''"

text \<open>
  A name that ends in a code unit outside the word characters (e with an acute accent),
  imported by name and called twice.
\<close>

definition cafe :: string where
  "cafe = ''Caf'' @ [CHR 0xE9]"

definition namedCafe :: ImportStatement where
  "namedCafe = \<lparr>moduleName = ''Menu'', isWildcard = False, importType = ''named'',
                symbols = [\<lparr>sym_name = cafe, sym_alias = None\<rparr>]\<rparr>"

definition cafeText :: string where
  "cafeText = ''import {'' @ cafe @ ''} from Menu'' @ [CHR 0x0A]
              @ ''x := '' @ cafe @ ''(1) + '' @ cafe @ ''(2)''"

text \<open>
  Diagnostics of \<^verbatim>\<open>Main\<close>: the linter reports an unused variable on line 3 first, the
  language service reports the same and a syntax error on line 1 afterwards.
\<close>

definition diagAt :: "nat \<Rightarrow> nat \<Rightarrow> string \<Rightarrow> VsSeverity \<Rightarrow> Diagnostic" where
  "diagAt l c msg sev =
     \<lparr>d_range = \<lparr>r_start = \<lparr>line = l, character = c\<rparr>,
                 r_end = \<lparr>line = l, character = c + 1\<rparr>\<rparr>,
      d_message = msg, d_severity = sev, d_source = None, d_code = None\<rparr>"

definition unusedDiag :: Diagnostic where
  "unusedDiag = diagAt 3 0 ''unused variable'' Warning"

definition syntaxDiag :: Diagnostic where
  "syntaxDiag = diagAt 1 2 ''syntax error'' Error"

definition lintAggregator :: DiagnosticAggregator where
  "lintAggregator =
     setDiagnostics (setDiagnostics newAggregator mainUri Static [unusedDiag])
       mainUri Lsp [unusedDiag, syntaxDiag]"

text \<open>
  Reports of the interpreter: the report, for a file, that a name is never assigned, and
  a report with a severity that is none of the known words and with numbers below one for
  its positions.
\<close>

definition warningFor :: "string \<Rightarrow> string \<Rightarrow> AlphaDiagnostic" where
  "warningFor filePath nm =
     \<lparr>a_file = filePath, a_line = 4, a_column = 7, a_endLine = 4, a_endColumn = 10,
      a_message = neverAssignedMessage nm, a_severity = ''warning'', a_extra = None,
      a_source = None, a_code = None\<rparr>"

definition oddReport :: AlphaDiagnostic where
  "oddReport =
     \<lparr>a_file = ''/ws/Main.ahk'', a_line = 0, a_column = - 3, a_endLine = - 1, a_endColumn = - 5,
      a_message = ''Unexpected token'', a_severity = ''fatal'', a_extra = Some ''near line 1'',
      a_source = None, a_code = None\<rparr>"

text \<open>
  A report whose end lies before its start, and a workspace in which \<^verbatim>\<open>Main\<close>
  wildcard-imports a module that exports a name with code units outside the word
  characters (o with a diaeresis, sharp s).
\<close>

definition backwardReport :: AlphaDiagnostic where
  "backwardReport =
     \<lparr>a_file = ''/ws/Main.ahk'', a_line = 5, a_column = 3, a_endLine = 0, a_endColumn = 0,
      a_message = ''Missing brace'', a_severity = ''error'', a_extra = None,
      a_source = None, a_code = None\<rparr>"



section \<open>Properties of the symbol index\<close>

lemmas index_defs =
  indexFile_def indexSymbols_def indexWildcardImports_def addByName_def toSymbol_def
  removeFile_def removeByName_def emptyIndex_def

lemmas query_defs =
  getSymbolsByName_def getModuleExports_def getModuleByUri_def getModuleByName_def
  getWildcardImportedSymbols_def isSymbolFromWildcardImport_def
  getWildcardImportSourceModule_def isSymbolExportedBy_def

lemma arrIndex_eq:
  "arrIndex =
     \<lparr>modules = [(''/ws/Arr.ahk'',
                   \<lparr>m_uri = arrUri, m_name = ''Arr'',
                    m_exports = [\<lparr>symbolName = ''Sum'', symbolType = ''function'',
                                  e_range = sumRange\<rparr>],
                    m_imports = [], m_indexed = True, m_lastModified = 0\<rparr>)],
      symbolsByModule = [(''Arr'', [sumSymbol])],
      symbolsByName = [(''Sum'', [sumSymbol])],
      wildcardImportsByDocument = []\<rparr>"
  by (simp add: arrIndex_def arrUri_def arrScan_def sumSymbol_def index_defs Let_def)

lemma workspaceIndex_eq:
  "workspaceIndex =
     \<lparr>modules = [(''/ws/Arr.ahk'',
                   \<lparr>m_uri = arrUri, m_name = ''Arr'',
                    m_exports = [\<lparr>symbolName = ''Sum'', symbolType = ''function'',
                                  e_range = sumRange\<rparr>],
                    m_imports = [], m_indexed = True, m_lastModified = 0\<rparr>),
                  (''/ws/Main.ahk'',
                   \<lparr>m_uri = mainUri, m_name = ''Main'', m_exports = [],
                    m_imports = [\<lparr>moduleName = ''Arr'', isWildcard = True,
                                  importType = ''wildcard'', symbols = []\<rparr>],
                    m_indexed = True, m_lastModified = 0\<rparr>)],
      symbolsByModule = [(''Arr'', [sumSymbol]), (''Main'', [])],
      symbolsByName = [(''Sum'', [sumSymbol])],
      wildcardImportsByDocument = [(''/ws/Main.ahk'', [''Arr''])]\<rparr>"
  by (simp add: workspaceIndex_def arrIndex_eq mainUri_def mainScan_def index_defs Let_def)

subsection \<open>Indexing a document again\<close>

lemma map_of_addByName:
  "map_of (addByName s m) n =
     (if s_name s = n
      then Some ((case map_of m n of None \<Rightarrow> [] | Some l \<Rightarrow> l) @ [s])
      else map_of m n)"
  by (auto simp: addByName_def update_conv split: option.splits)

lemma map_of_fold_addByName:
  "(case map_of (fold addByName syms m) n of None \<Rightarrow> [] | Some l \<Rightarrow> l) =
     (case map_of m n of None \<Rightarrow> [] | Some l \<Rightarrow> l) @ filter (\<lambda>s. s_name s = n) syms"
  by (induction syms arbitrary: m) (simp_all add: map_of_addByName)

text \<open>
  What \<^verbatim>\<open>indexFile\<close> does to the name-based index: the symbols of the scan are put
  behind the entries the name already has, those of an earlier scan of the same document
  included.
\<close>

lemma getSymbolsByName_indexFile:
  "getSymbolsByName (indexFile idx uri (Some (modName, exps, imps)) now) n =
     getSymbolsByName idx n @
     filter (\<lambda>s. s_name s = n)
       (map (toSymbol \<lparr>m_uri = uri, m_name = modName, m_exports = exps, m_imports = imps,
                       m_indexed = True, m_lastModified = now\<rparr>) exps)"
  by (simp add: getSymbolsByName_def indexFile_def indexSymbols_def indexWildcardImports_def
      Let_def map_of_fold_addByName)

text \<open>
  C1 (the code departs from it). Indexing \<^verbatim>\<open>Arr\<close> a second time with the same text
  does not remove the entry of the first scan from the name-based index:
  \<^verbatim>\<open>getSymbolsByName("Sum")\<close> answers with one symbol after the first call and with
  the same symbol twice after the second.
\<close>

theorem reindex_duplicates_symbol:
  "getSymbolsByName (indexFile emptyIndex arrUri arrScan 0) ''Sum'' = [sumSymbol]
   \<and> getSymbolsByName (indexFile (indexFile emptyIndex arrUri arrScan 0) arrUri arrScan 0) ''Sum''
       = [sumSymbol, sumSymbol]"
  unfolding arrScan_def getSymbolsByName_indexFile
  by (simp add: getSymbolsByName_def emptyIndex_def toSymbol_def sumSymbol_def)

subsection \<open>Removing a document\<close>

lemma removeFile_wildcardImports:
  "wildcardImportsByDocument (removeFile idx uri) = wildcardImportsByDocument idx"
  by (simp add: removeFile_def split: option.splits)

text \<open>
  C3 (the code departs from it). \<^verbatim>\<open>removeFile\<close> leaves the wildcard-import record of
  the document where it is: after \<^verbatim>\<open>Main\<close> is removed from the workspace above, its
  module record is gone, and \<^verbatim>\<open>getWildcardImportedSymbols(Main)\<close> still answers with
  the symbol \<^verbatim>\<open>Sum\<close> of \<^verbatim>\<open>Arr\<close>.
\<close>

theorem removeFile_keeps_wildcard_record:
  "getModuleByUri (removeFile workspaceIndex mainUri) mainUri = None
   \<and> map_of (wildcardImportsByDocument (removeFile workspaceIndex mainUri)) (fsPath mainUri)
       = Some [''Arr'']
   \<and> getWildcardImportedSymbols (removeFile workspaceIndex mainUri) mainUri = [sumSymbol]
   \<and> isSymbolFromWildcardImport (removeFile workspaceIndex mainUri) mainUri ''Sum''"
  by (simp add: workspaceIndex_eq mainUri_def removeFile_def query_defs sumSymbol_def)

subsection \<open>The two wildcard queries\<close>

lemma list_ex_concat_map:
  "list_ex P (concat (map f xs)) \<longleftrightarrow> (\<exists>x\<in>set xs. list_ex P (f x))"
  by (induction xs) auto

text \<open>
  C10. For every index, document and name, \<^verbatim>\<open>isSymbolFromWildcardImport\<close> answers true
  exactly when \<^verbatim>\<open>getWildcardImportSourceModule\<close> answers with a module name.
\<close>

theorem wildcard_queries_agree:
  "isSymbolFromWildcardImport idx uri n \<longleftrightarrow> getWildcardImportSourceModule idx uri n \<noteq> None"
proof (cases "map_of (wildcardImportsByDocument idx) (fsPath uri)")
  case None
  then show ?thesis
    by (simp add: isSymbolFromWildcardImport_def getWildcardImportSourceModule_def
        getWildcardImportedSymbols_def)
next
  case (Some ms)
  have "isSymbolFromWildcardImport idx uri n \<longleftrightarrow> (\<exists>m\<in>set ms. isSymbolExportedBy idx n m)"
    using Some
    by (cases ms) (simp_all add: isSymbolFromWildcardImport_def getWildcardImportedSymbols_def
        isSymbolExportedBy_def list_ex_concat_map)
  also have "\<dots> \<longleftrightarrow> find (isSymbolExportedBy idx n) ms \<noteq> None"
    by (auto simp: find_None_iff)
  finally show ?thesis using Some
    by (simp add: getWildcardImportSourceModule_def)
qed

theorem wildcard_queries_agree_witness:
  "isSymbolFromWildcardImport workspaceIndex mainUri ''Sum''
   \<and> getWildcardImportSourceModule workspaceIndex mainUri ''Sum'' = Some ''Arr''
   \<and> \<not> isSymbolFromWildcardImport workspaceIndex mainUri ''Max''
   \<and> getWildcardImportSourceModule workspaceIndex mainUri ''Max'' = None"
  using wildcard_queries_agree [of workspaceIndex mainUri "''Sum''"]
    wildcard_queries_agree [of workspaceIndex mainUri "''Max''"]
  by (simp add: workspaceIndex_eq mainUri_def query_defs sumSymbol_def)

subsection \<open>Circular dependencies\<close>

text \<open>
  The traversal returns for every index and every start: a depth of one more than the
  number of names it can visit is enough, and a result does not change with more depth.
\<close>

lemma dfs_deeper:
  "dfs depth idx modName st = Some r \<Longrightarrow> dfs (Suc depth) idx modName st = Some r"
  "dfsImports depth idx imps st = Some r \<Longrightarrow> dfsImports (Suc depth) idx imps st = Some r"
proof (induction depth idx modName st and depth idx imps st arbitrary: r and r
    rule: dfs_dfsImports.induct)
  case (1 idx modName st)
  then show ?case by simp
next
  case (2 depth idx modName st)
  show ?case
  proof (cases "modName \<in> set (path st) \<or> modName \<in> visited st")
    case True
    then show ?thesis using "2.prems" by (auto simp: Let_def)
  next
    case False
    let ?st1 = "st\<lparr>visited := insert modName (visited st), path := path st @ [modName]\<rparr>"
    show ?thesis
    proof (cases "getModuleByName idx modName")
      case None
      then show ?thesis using "2.prems" False by (auto simp: Let_def)
    next
      case (Some m)
      then obtain st2 where st2: "dfsImports depth idx (m_imports m) ?st1 = Some st2"
        and r: "r = st2\<lparr>path := butlast (path st2)\<rparr>"
        using "2.prems" False by (auto simp: Let_def split: option.splits)
      have "dfsImports (Suc depth) idx (m_imports m) ?st1 = Some st2"
        using "2.IH" [of ?st1 m st2] False Some st2 by auto
      then show ?thesis
        using False Some r by (simp add: Let_def)
    qed
  qed
next
  case (3 depth idx st)
  then show ?case by simp
next
  case (4 depth idx importStmt rest st)
  then obtain st' where a: "dfs depth idx (moduleName importStmt) st = Some st'"
    and b: "dfsImports depth idx rest st' = Some r"
    by (auto split: option.splits)
  then show ?case
    using "4.IH" by simp
qed


lemma getModuleByName_targets:
  assumes "getModuleByName idx n = Some m"
  shows "moduleName ` set (m_imports m) \<subseteq> importTargets idx"
proof -
  have "m \<in> snd ` set (modules idx)"
    using assms by (auto simp: getModuleByName_def find_Some_iff)
  then show ?thesis
    by (auto simp: importTargets_def)
qed

lemma dfsImports_returns:
  assumes fin: "finite U"
    and H: "\<And>st n. n \<in> U \<Longrightarrow> card (U - visited st) \<le> j
              \<Longrightarrow> \<exists>st'. dfs (Suc j) idx n st = Some st' \<and> visited st \<subseteq> visited st'"
  shows "moduleName ` set imps \<subseteq> U \<Longrightarrow> card (U - visited st) \<le> j
         \<Longrightarrow> \<exists>st'. dfsImports (Suc j) idx imps st = Some st' \<and> visited st \<subseteq> visited st'"
proof (induction imps arbitrary: st)
  case Nil
  then show ?case by simp
next
  case (Cons i imps)
  then obtain st1 where st1: "dfs (Suc j) idx (moduleName i) st = Some st1"
      "visited st \<subseteq> visited st1"
    using H [of "moduleName i" st] by auto
  have "U - visited st1 \<subseteq> U - visited st"
    using st1(2) by auto
  then have "card (U - visited st1) \<le> card (U - visited st)"
    using fin by (simp add: card_mono)
  then have "card (U - visited st1) \<le> j"
    using Cons.prems(2) by simp
  then obtain st' where "dfsImports (Suc j) idx imps st1 = Some st'" "visited st1 \<subseteq> visited st'"
    using Cons.IH [of st1] Cons.prems(1) by auto
  then show ?case
    using st1 by (auto simp del: dfs.simps)
qed

lemma dfs_returns:
  assumes fin: "finite U" and sub: "importTargets idx \<subseteq> U"
  shows "n \<in> U \<Longrightarrow> card (U - visited st) \<le> k
         \<Longrightarrow> \<exists>st'. dfs (Suc k) idx n st = Some st' \<and> visited st \<subseteq> visited st'"
proof (induction k arbitrary: n st)
  case 0
  then have "U - visited st = {}"
    using fin by simp
  then have "n \<in> visited st"
    using "0.prems"(1) by auto
  then show ?case
    by (auto simp: Let_def)
next
  case (Suc j)
  show ?case
  proof (cases "n \<in> set (path st) \<or> n \<in> visited st")
    case True
    then show ?thesis by (auto simp: Let_def)
  next
    case False
    let ?st1 = "st\<lparr>visited := insert n (visited st), path := path st @ [n]\<rparr>"
    have "U - visited ?st1 = (U - visited st) - {n}"
      by auto
    moreover have "n \<in> U - visited st"
      using False Suc.prems(1) by simp
    ultimately have "card (U - visited ?st1) = card (U - visited st) - 1"
      using fin by simp
    then have small: "card (U - visited ?st1) \<le> j"
      using Suc.prems(2) by simp
    show ?thesis
    proof (cases "getModuleByName idx n")
      case None
      then show ?thesis
        using False by (auto simp: Let_def)
    next
      case (Some m)
      have "moduleName ` set (m_imports m) \<subseteq> U"
        using getModuleByName_targets [OF Some] sub by blast
      then obtain st2 where st2: "dfsImports (Suc j) idx (m_imports m) ?st1 = Some st2"
          "visited ?st1 \<subseteq> visited st2"
        using dfsImports_returns [OF fin Suc.IH, of "m_imports m" ?st1] small by blast
      have "dfs (Suc (Suc j)) idx n st = Some (st2\<lparr>path := butlast (path st2)\<rparr>)"
        using False Some st2(1) by (simp add: Let_def del: dfsImports.simps)
      then show ?thesis
        using st2(2) by auto
    qed
  qed
qed

lemma detect_returns:
  "\<exists>found. detectCircularDependencies (Suc (card (insert start (importTargets idx)))) idx start
            = Some found"
proof -
  let ?U = "insert start (importTargets idx)"
  have fin: "finite ?U"
    by (simp add: importTargets_def)
  have "card (?U - visited \<lparr>cycles = [], visited = {}, path = []\<rparr>) \<le> card ?U"
    by simp
  then obtain st' where
    "dfs (Suc (card ?U)) idx start \<lparr>cycles = [], visited = {}, path = []\<rparr> = Some st'"
    using dfs_returns [OF fin, of idx start "\<lparr>cycles = [], visited = {}, path = []\<rparr>" "card ?U"]
    by blast
  then show ?thesis
    by (simp add: detectCircularDependencies_def del: dfs.simps)
qed

lemma indexFile_Some:
  "indexFile idx uri (Some (modName, exps, imps)) now =
     (let moduleInfo = \<lparr>m_uri = uri, m_name = modName, m_exports = exps, m_imports = imps,
                             m_indexed = True, m_lastModified = now\<rparr>;
          syms = map (toSymbol moduleInfo) exps
      in \<lparr>modules = AList.update (fsPath uri) moduleInfo (modules idx),
          symbolsByModule = AList.update modName syms (symbolsByModule idx),
          symbolsByName = fold addByName syms (symbolsByName idx),
          wildcardImportsByDocument =
            (if filter isWildcard imps \<noteq> []
             then AList.update (fsPath uri) (map moduleName (filter isWildcard imps))
                    (wildcardImportsByDocument idx)
             else AList.delete (fsPath uri) (wildcardImportsByDocument idx))\<rparr>)"
  by (simp add: indexFile_def indexSymbols_def indexWildcardImports_def Let_def)

lemma ringIndex_eq:
  "ringIndex =
     \<lparr>modules =
        [(''/ws/A.ahk'', \<lparr>m_uri = Uri ''/ws/A.ahk'', m_name = ''A'', m_exports = [],
              m_imports = [importOf ''B''], m_indexed = True, m_lastModified = 0\<rparr>),
         (''/ws/B.ahk'', \<lparr>m_uri = Uri ''/ws/B.ahk'', m_name = ''B'', m_exports = [],
              m_imports = [importOf ''C''], m_indexed = True, m_lastModified = 0\<rparr>),
         (''/ws/C.ahk'', \<lparr>m_uri = Uri ''/ws/C.ahk'', m_name = ''C'', m_exports = [],
              m_imports = [importOf ''A''], m_indexed = True, m_lastModified = 0\<rparr>)],
      symbolsByModule = [(''A'', []), (''B'', []), (''C'', [])],
      symbolsByName = [],
      wildcardImportsByDocument = []\<rparr>"
  unfolding ringIndex_def indexFile_Some
  by (simp add: emptyIndex_def importOf_def)

lemma ringIndex_modules:
  "getModuleByName ringIndex ''A''
     = Some \<lparr>m_uri = Uri ''/ws/A.ahk'', m_name = ''A'', m_exports = [],
              m_imports = [importOf ''B''], m_indexed = True, m_lastModified = 0\<rparr>"
  "getModuleByName ringIndex ''B''
     = Some \<lparr>m_uri = Uri ''/ws/B.ahk'', m_name = ''B'', m_exports = [],
              m_imports = [importOf ''C''], m_indexed = True, m_lastModified = 0\<rparr>"
  "getModuleByName ringIndex ''C''
     = Some \<lparr>m_uri = Uri ''/ws/C.ahk'', m_name = ''C'', m_exports = [],
              m_imports = [importOf ''A''], m_indexed = True, m_lastModified = 0\<rparr>"
  by (simp_all add: ringIndex_eq getModuleByName_def)

text \<open>
  C4. Let the module found under the name \<open>a\<close> import \<open>b\<close> and nothing else, the one
  under \<open>b\<close> import \<open>c\<close> and nothing else, the one under \<open>c\<close> import \<open>a\<close> and nothing
  else, the three names being different. Then \<^verbatim>\<open>detectCircularDependencies(a)\<close>
  returns (a depth of four is enough for the traversal, and every greater one gives the
  same) exactly one cycle, the sequence \<open>a, b, c, a\<close>.
\<close>

theorem detect_ring_cycle:
  assumes dist: "a \<noteq> b" "b \<noteq> c" "a \<noteq> c"
    and ma: "getModuleByName idx a = Some ma" "map moduleName (m_imports ma) = [b]"
    and mb: "getModuleByName idx b = Some mb" "map moduleName (m_imports mb) = [c]"
    and mc: "getModuleByName idx c = Some mc" "map moduleName (m_imports mc) = [a]"
    and depth: "4 \<le> depth"
  shows "detectCircularDependencies depth idx a = Some [[a, b, c, a]]"
proof -
  obtain j where "depth = 4 + j"
    using depth le_Suc_ex by blast
  then have k: "depth = Suc (Suc (Suc (Suc j)))"
    by simp
  obtain ia where ia: "m_imports ma = [ia]" "moduleName ia = b"
    using ma(2) by auto
  obtain ib where ib: "m_imports mb = [ib]" "moduleName ib = c"
    using mb(2) by auto
  obtain ic where ic: "m_imports mc = [ic]" "moduleName ic = a"
    using mc(2) by auto
  show ?thesis
    using dist
    by (simp add: detectCircularDependencies_def k ma(1) mb(1) mc(1) ia ib ic Let_def indexOf_def)
qed

theorem detect_ring_cycle_witness:
  "detectCircularDependencies 4 ringIndex ''A'' = Some [[''A'', ''B'', ''C'', ''A'']]"
  by (rule detect_ring_cycle [OF _ _ _ ringIndex_modules(1) _ ringIndex_modules(2) _
        ringIndex_modules(3)])
     (simp_all add: importOf_def)

subsection \<open>Unused imports\<close>

text \<open>
  For a name that is an identifier, the expression \<^verbatim>\<open>\bNAME\b\<close> matches exactly
  where a word of the text is the name, and the matches counted by the source are the
  occurrences of the name.
\<close>

lemma identifier_chars:
  "isIdentifier nm \<Longrightarrow> nm \<noteq> [] \<and> (\<forall>c\<in>set nm. isWordChar c)"
  by (auto simp: isIdentifier_def list_all_iff)

lemma headOpt_dropWhile_word:
  "\<not> isWordOpt (headOpt (dropWhile isWordChar s))"
proof (cases "dropWhile isWordChar s")
  case Nil
  show ?thesis unfolding Nil by (simp add: headOpt_def isWordOpt_def)
next
  case (Cons a l)
  then have "\<not> isWordChar a"
    using hd_dropWhile [of isWordChar s] by simp
  with Cons show ?thesis by (simp add: headOpt_def isWordOpt_def)
qed

lemma matchWordHere_iff:
  assumes "isIdentifier nm"
  shows "matchWordHere nm prev s \<longleftrightarrow> (\<not> isWordOpt prev \<and> takeWhile isWordChar s = nm)"
proof
  assume m: "matchWordHere nm prev s"
  then obtain rest where s: "s = nm @ rest"
    by (auto simp: matchWordHere_def prefix_def)
  from assms have ne: "nm \<noteq> []" and all: "\<forall>c\<in>set nm. isWordChar c"
    using identifier_chars by auto
  then have hd: "isWordOpt (headOpt s)"
    using s by (cases nm) (auto simp: headOpt_def isWordOpt_def)
  have lst: "isWordOpt (lastOpt prev nm)"
    using ne all by (auto simp: lastOpt_def isWordOpt_def)
  from m hd have b: "\<not> isWordOpt prev"
    by (auto simp: matchWordHere_def wordBoundary_def)
  from m lst s have "\<not> isWordOpt (headOpt rest)"
    by (auto simp: matchWordHere_def wordBoundary_def)
  then have "takeWhile isWordChar rest = []"
    by (cases rest) (auto simp: headOpt_def isWordOpt_def)
  then have "takeWhile isWordChar s = nm"
    using s all by simp
  with b show "\<not> isWordOpt prev \<and> takeWhile isWordChar s = nm" by simp
next
  assume a: "\<not> isWordOpt prev \<and> takeWhile isWordChar s = nm"
  from assms have ne: "nm \<noteq> []" and all: "\<forall>c\<in>set nm. isWordChar c"
    using identifier_chars by auto
  have s: "s = nm @ dropWhile isWordChar s"
    using a takeWhile_dropWhile_id [of isWordChar s] by simp
  have hd: "isWordOpt (headOpt s)"
    using ne all by (subst s, cases nm) (auto simp: headOpt_def isWordOpt_def)
  have lst: "isWordOpt (lastOpt prev nm)"
    using ne all by (auto simp: lastOpt_def isWordOpt_def)
  have dr: "drop (length nm) s = dropWhile isWordChar s"
    by (subst s) simp
  have pre: "prefix nm s"
    by (subst s) simp
  show "matchWordHere nm prev s"
    using a hd lst dr pre headOpt_dropWhile_word [of s]
    by (simp add: matchWordHere_def wordBoundary_def)
qed

lemma countMatches_skip:
  "skip \<le> length s \<Longrightarrow> 0 < skip \<Longrightarrow>
   countMatches nm skip prev s = countMatches nm 0 (Some (s ! (skip - 1))) (drop skip s)"
proof (induction s arbitrary: skip prev)
  case Nil
  then show ?case by simp
next
  case (Cons c cs)
  show ?case
  proof (cases "skip = 1")
    case True
    then show ?thesis by simp
  next
    case False
    with Cons.prems obtain k where k: "skip = Suc (Suc k)"
      by (cases skip; cases "skip - 1") auto
    with Cons show ?thesis by simp
  qed
qed

lemma wordsOf_word:
  "isWordChar c \<Longrightarrow>
   wordsOf (c # cs) = takeWhile isWordChar (c # cs) # wordsOf (dropWhile isWordChar cs)"
  by simp

lemma countMatches_after_match:
  assumes nm: "isIdentifier nm" and tk: "takeWhile isWordChar (c # cs) = nm"
  shows "\<exists>p. isWordChar p \<and>
           countMatches nm (length nm - 1) (Some c) cs
             = countMatches nm 0 (Some p) (dropWhile isWordChar cs)"
proof -
  from nm have ne: "nm \<noteq> []" and all: "\<forall>x\<in>set nm. isWordChar x"
    using identifier_chars by auto
  from tk ne have c: "isWordChar c"
    by (auto split: if_splits)
  with tk have nm_eq: "nm = c # takeWhile isWordChar cs"
    by simp
  have dr: "drop (length nm - 1) cs = dropWhile isWordChar cs"
    by (simp add: nm_eq dropWhile_eq_drop)
  show ?thesis
  proof (cases "length nm - 1 = 0")
    case True
    then have "takeWhile isWordChar cs = []"
      by (simp add: nm_eq)
    then have "dropWhile isWordChar cs = cs"
      using takeWhile_dropWhile_id [of isWordChar cs] by simp
    with True c show ?thesis by auto
  next
    case False
    then have pos: "0 < length nm - 1" by simp
    have le: "length nm - 1 \<le> length cs"
      by (simp add: nm_eq length_takeWhile_le)
    have "cs ! (length nm - 1 - 1) = takeWhile isWordChar cs ! (length nm - 1 - 1)"
      using pos by (simp add: nm_eq takeWhile_nth)
    moreover have "takeWhile isWordChar cs ! (length nm - 1 - 1) \<in> set (takeWhile isWordChar cs)"
      using pos by (simp add: nm_eq)
    ultimately have "isWordChar (cs ! (length nm - 1 - 1))"
      using all by (simp add: nm_eq)
    then show ?thesis
      using countMatches_skip [OF le pos, of nm "Some c"] dr by auto
  qed
qed

lemma countMatches_words_aux:
  assumes nm: "isIdentifier nm"
  shows "countMatches nm 0 prev s =
           count_list (wordsOf (if isWordOpt prev then dropWhile isWordChar s else s)) nm"
proof (induction s arbitrary: prev rule: length_induct)
  case (1 s)
  show ?case
  proof (cases s)
    case Nil
    have "\<not> matchWordHere nm prev []"
      using matchWordHere_iff [OF nm, of prev "[]"] identifier_chars [OF nm] by auto
    then show ?thesis using Nil by simp
  next
    case (Cons c cs)
    have IHcs: "\<And>p. countMatches nm 0 p cs =
        count_list (wordsOf (if isWordOpt p then dropWhile isWordChar cs else cs)) nm"
      using 1 Cons by simp
    have IHdrop: "\<And>p. countMatches nm 0 p (dropWhile isWordChar cs) =
        count_list (wordsOf (if isWordOpt p then dropWhile isWordChar (dropWhile isWordChar cs)
                             else dropWhile isWordChar cs)) nm"
      using 1 Cons by (simp add: length_dropWhile_le less_Suc_eq_le)
    show ?thesis
    proof (cases "isWordOpt prev")
      case True
      then have "\<not> matchWordHere nm prev (c # cs)"
        using matchWordHere_iff [OF nm] by simp
      then have "countMatches nm 0 prev s = countMatches nm 0 (Some c) cs"
        using Cons by simp
      then show ?thesis
        using True Cons IHcs [of "Some c"] by (simp add: isWordOpt_def)
    next
      case False
      show ?thesis
      proof (cases "matchWordHere nm prev (c # cs)")
        case m: True
        then have tk: "takeWhile isWordChar (c # cs) = nm"
          using matchWordHere_iff [OF nm] by simp
        from nm tk have c: "isWordChar c"
          using identifier_chars [OF nm] by (auto split: if_splits)
        obtain p where p: "isWordChar p"
          "countMatches nm (length nm - 1) (Some c) cs
             = countMatches nm 0 (Some p) (dropWhile isWordChar cs)"
          using countMatches_after_match [OF nm tk] by blast
        have "countMatches nm 0 prev s = 1 + countMatches nm 0 (Some p) (dropWhile isWordChar cs)"
          using Cons m p by simp
        also have "\<dots> = 1 + count_list (wordsOf (dropWhile isWordChar cs)) nm"
          using IHdrop [of "Some p"] p by (simp add: isWordOpt_def)
        also have "\<dots> = count_list (wordsOf (c # cs)) nm"
          using c tk by (simp del: takeWhile.simps add: wordsOf_word)
        finally show ?thesis using False Cons by simp
      next
        case nomatch: False
        then have ntk: "takeWhile isWordChar (c # cs) \<noteq> nm"
          using matchWordHere_iff [OF nm] False by simp
        have "countMatches nm 0 prev s = countMatches nm 0 (Some c) cs"
          using Cons nomatch by simp
        also have "\<dots> = count_list (wordsOf (c # cs)) nm"
        proof (cases "isWordChar c")
          case True
          then show ?thesis
            using IHcs [of "Some c"] ntk by (simp add: isWordOpt_def)
        next
          case False
          then show ?thesis
            using IHcs [of "Some c"] by (simp add: isWordOpt_def)
        qed
        finally show ?thesis using False Cons by simp
      qed
    qed
  qed
qed

lemma countMatches_words:
  "isIdentifier nm \<Longrightarrow> countMatches nm 0 None txt = count_list (wordsOf txt) nm"
  using countMatches_words_aux [of nm None] by (simp add: isWordOpt_def)

lemma matchAccessHere_iff:
  assumes "isIdentifier nm"
  shows "matchAccessHere nm prev s \<longleftrightarrow> (\<not> isWordOpt prev \<and> (\<exists>post. s = nm @ ''.'' @ post))"
proof -
  from assms have ne: "nm \<noteq> []" and all: "\<forall>c\<in>set nm. isWordChar c"
    using identifier_chars by auto
  have "prefix (nm @ ''.'') s \<Longrightarrow> isWordOpt (headOpt s)"
    using ne all by (cases nm) (auto simp: prefix_def headOpt_def isWordOpt_def)
  then show ?thesis
    by (auto simp: matchAccessHere_def wordBoundary_def prefix_def)
qed

lemma testAccess_iff:
  assumes nm: "isIdentifier nm"
  shows "testAccess nm prev s \<longleftrightarrow>
           (\<exists>pre post. s = pre @ nm @ ''.'' @ post
              \<and> \<not> isWordOpt (if pre = [] then prev else Some (last pre)))"
proof (induction s arbitrary: prev)
  case Nil
  then show ?case by simp
next
  case (Cons c cs)
  show ?case
  proof
    assume "testAccess nm prev (c # cs)"
    then consider "matchAccessHere nm prev (c # cs)" | "testAccess nm (Some c) cs"
      by auto
    then show "\<exists>pre post. c # cs = pre @ nm @ ''.'' @ post
              \<and> \<not> isWordOpt (if pre = [] then prev else Some (last pre))"
    proof cases
      case 1
      then obtain post where "c # cs = [] @ nm @ ''.'' @ post" "\<not> isWordOpt prev"
        using matchAccessHere_iff [OF nm] by auto
      then show ?thesis
        by (rule_tac x = "[]" in exI, rule_tac x = post in exI) simp
    next
      case 2
      then obtain pre post where p: "cs = pre @ nm @ ''.'' @ post"
        "\<not> isWordOpt (if pre = [] then Some c else Some (last pre))"
        using Cons.IH by blast
      then show ?thesis
        by (rule_tac x = "c # pre" in exI, rule_tac x = post in exI) (auto split: if_splits)
    qed
  next
    assume "\<exists>pre post. c # cs = pre @ nm @ ''.'' @ post
              \<and> \<not> isWordOpt (if pre = [] then prev else Some (last pre))"
    then obtain pre post where p: "c # cs = pre @ nm @ ''.'' @ post"
        "\<not> isWordOpt (if pre = [] then prev else Some (last pre))"
      by blast
    show "testAccess nm prev (c # cs)"
    proof (cases pre)
      case Nil
      then have "matchAccessHere nm prev (c # cs)"
        using p matchAccessHere_iff [OF nm, of prev "c # cs"] by auto
      then show ?thesis by simp
    next
      case (Cons d pre')
      then have "cs = pre' @ nm @ ''.'' @ post"
        "\<not> isWordOpt (if pre' = [] then Some c else Some (last pre'))"
        using p by (auto split: if_splits)
      then have "testAccess nm (Some c) cs"
        using Cons.IH by blast
      then show ?thesis by simp
    qed
  qed
qed

lemma word_not_syntax: "isWordChar c \<Longrightarrow> \<not> isSyntaxChar c"
  by (auto simp: isWordChar_def isSyntaxChar_def)

lemma identifier_plain: "isIdentifier nm \<Longrightarrow> plainName nm"
  using identifier_chars [of nm] word_not_syntax
  by (auto simp: plainName_def list_ex_iff)

lemma countSymbol_identifier:
  "isIdentifier nm \<Longrightarrow> countSymbol host nm txt = Some (occurrences nm txt)"
  by (simp add: countSymbol_def identifier_plain countMatches_words occurrences_def)

lemma allUnused_identifiers:
  "\<forall>s\<in>set syms. isIdentifier (symbolLocalName s) \<Longrightarrow>
   allUnused host txt syms = Inr (\<forall>s\<in>set syms. occurrences (symbolLocalName s) txt \<le> 1)"
  by (induction syms) (auto simp: countSymbol_identifier)

lemma allUnused_plain:
  "list_all (\<lambda>s. plainName (symbolLocalName s)) syms \<Longrightarrow> \<exists>b. allUnused host txt syms = Inr b"
  by (induction syms) (auto simp: countSymbol_def)

lemma isUnusedImport_plain:
  "plainImport i \<Longrightarrow> \<exists>b. isUnusedImport host txt i = Inr b"
  using allUnused_plain [of "symbols i" host "txt"]
  by (auto simp: isUnusedImport_def plainImport_def testModule_def)

lemma getUnusedImports_plain:
  "list_all plainImport imps \<Longrightarrow> \<exists>unused. getUnusedImports host imps txt = Inr unused"
proof (induction imps)
  case Nil
  then show ?case by simp
next
  case (Cons i imps)
  then obtain b unused where "isUnusedImport host txt i = Inr b"
      "getUnusedImports host imps txt = Inr unused"
    using isUnusedImport_plain [of i host "txt"] by auto
  then show ?case by simp
qed

lemma mem_getUnusedImports:
  "getUnusedImports host imps txt = Inr unused \<Longrightarrow>
   i \<in> set unused \<longleftrightarrow> i \<in> set imps \<and> isUnusedImport host txt i = Inr True"
proof (induction imps arbitrary: unused)
  case Nil
  then show ?case by auto
next
  case (Cons j imps)
  then obtain b rest where b: "isUnusedImport host txt j = Inr b"
    and rest: "getUnusedImports host imps txt = Inr rest"
    and unused: "unused = (if b then j # rest else rest)"
    by (auto split: sum.splits)
  have IH: "i \<in> set rest \<longleftrightarrow> i \<in> set imps \<and> isUnusedImport host txt i = Inr True"
    using Cons.IH [OF rest] .
  show ?case
    using b IH by (auto simp: unused)
qed

text \<open>
  C8, for names that are identifiers. When the call returns (it does when no name has a
  syntax character), then for an import of the document: a wildcard import is never
  reported; a named import whose local names (the alias where there is one) are
  identifiers is reported exactly when none of them occurs more than once in the text, so
  one with a single name is reported when the name occurs exactly once and is left out
  when it occurs a second time; a default import of a module whose name is an identifier
  is reported exactly when the text nowhere holds, at the start of a word, the module
  name followed by a dot.
\<close>

theorem unused_imports_heuristic:
  "(list_all plainImport imps \<longrightarrow> (\<exists>result. getUnusedImports host imps txt = Inr result))
   \<and> (getUnusedImports host imps txt = Inr unused \<and> importStmt \<in> set imps \<longrightarrow>
     (isWildcard importStmt \<longrightarrow> importStmt \<notin> set unused)
     \<and> (\<not> isWildcard importStmt \<and> importType importStmt = ''named''
          \<and> (\<forall>s\<in>set (symbols importStmt). isIdentifier (symbolLocalName s))
        \<longrightarrow> (importStmt \<in> set unused
             \<longleftrightarrow> (\<forall>s\<in>set (symbols importStmt). occurrences (symbolLocalName s) txt \<le> 1)))
     \<and> (\<not> isWildcard importStmt \<and> importType importStmt = ''named''
          \<and> symbols importStmt = [s] \<and> isIdentifier (symbolLocalName s)
        \<longrightarrow> (occurrences (symbolLocalName s) txt = 1 \<longrightarrow> importStmt \<in> set unused)
          \<and> (2 \<le> occurrences (symbolLocalName s) txt \<longrightarrow> importStmt \<notin> set unused))
     \<and> (\<not> isWildcard importStmt \<and> importType importStmt = ''default''
          \<and> isIdentifier (moduleName importStmt)
        \<longrightarrow> (importStmt \<in> set unused
             \<longleftrightarrow> \<not> (\<exists>pre post. txt = pre @ moduleName importStmt @ ''.'' @ post
                        \<and> (pre = [] \<or> \<not> isWordChar (last pre))))))"
  (is "?returns \<and> (?pre \<longrightarrow> ?post)")
proof (rule conjI)
  show ?returns
    by (auto intro: getUnusedImports_plain)
next
  show "?pre \<longrightarrow> ?post"
  proof (rule impI)
  assume ?pre
  then have ret: "getUnusedImports host imps txt = Inr unused" and mem: "importStmt \<in> set imps"
    by simp_all
  note in_unused = mem_getUnusedImports [OF ret, of importStmt]
  have named: "importStmt \<in> set unused
             \<longleftrightarrow> (\<forall>s\<in>set (symbols importStmt). occurrences (symbolLocalName s) txt \<le> 1)"
    if "\<not> isWildcard importStmt" "importType importStmt = ''named''"
      "\<forall>s\<in>set (symbols importStmt). isIdentifier (symbolLocalName s)"
    using that mem
    by (simp add: in_unused isUnusedImport_def allUnused_identifiers)
  have dflt: "importStmt \<in> set unused
             \<longleftrightarrow> \<not> (\<exists>pre post. txt = pre @ moduleName importStmt @ ''.'' @ post
                        \<and> (pre = [] \<or> \<not> isWordChar (last pre)))"
    if "\<not> isWildcard importStmt" "importType importStmt = ''default''"
      "isIdentifier (moduleName importStmt)"
  proof -
    have "testAccess (moduleName importStmt) None txt
          \<longleftrightarrow> (\<exists>pre post. txt = pre @ moduleName importStmt @ ''.'' @ post
                        \<and> (pre = [] \<or> \<not> isWordChar (last pre)))"
      unfolding testAccess_iff [OF that(3)]
      by (auto simp: isWordOpt_def split: if_splits)
    then show ?thesis
      using that mem
      by (simp add: in_unused isUnusedImport_def testModule_def identifier_plain)
  qed
  have wild: "isWildcard importStmt \<longrightarrow> importStmt \<notin> set unused"
    by (simp add: in_unused isUnusedImport_def)
  show ?post
    using wild named dflt by auto
  qed
qed

lemma occurrences_Sum:
  "occurrences ''Sum'' idleText = 1" "occurrences ''Sum'' busyText = 2"
  by (simp_all add: occurrences_def idleText_def busyText_def isWordChar_def)

lemma example_identifiers: "isIdentifier ''Sum''" "isIdentifier ''Arr''"
  by (simp_all add: isIdentifier_def isWordChar_def)

lemma example_unused:
  "isUnusedImport noRegExpHost idleText wildcardArr = Inr False"
  "isUnusedImport noRegExpHost busyText wildcardArr = Inr False"
  "isUnusedImport noRegExpHost idleText namedSum = Inr True"
  "isUnusedImport noRegExpHost busyText namedSum = Inr False"
  by (simp_all add: isUnusedImport_def wildcardArr_def namedSum_def symbolLocalName_def
      countSymbol_identifier example_identifiers occurrences_Sum)

lemma example_access:
  "isUnusedImport noRegExpHost idleText (importOf ''Arr'') = Inr True"
  "isUnusedImport noRegExpHost busyText (importOf ''Arr'') = Inr False"
proof -
  have plain: "plainName ''Arr''"
    by (rule identifier_plain) (rule example_identifiers)
  have "\<not> testAccess ''Arr'' None idleText"
    by (simp add: idleText_def matchAccessHere_def)
  then show "isUnusedImport noRegExpHost idleText (importOf ''Arr'') = Inr True"
    by (simp add: isUnusedImport_def importOf_def testModule_def plain)
  have "testAccess ''Arr'' None busyText"
    unfolding testAccess_iff [OF example_identifiers(2)]
    by (rule exI [of _ "''import {Sum} from Arr'' @ [CHR 0x0A] @ ''x := Sum([1,2,3]) + ''"],
        rule exI [of _ "''Max''"])
       (simp add: busyText_def isWordOpt_def isWordChar_def)
  then show "isUnusedImport noRegExpHost busyText (importOf ''Arr'') = Inr False"
    by (simp add: isUnusedImport_def importOf_def testModule_def plain)
qed

theorem unused_imports_heuristic_witness:
  "getUnusedImports noRegExpHost [wildcardArr, namedSum, importOf ''Arr''] idleText
     = Inr [namedSum, importOf ''Arr'']
   \<and> getUnusedImports noRegExpHost [wildcardArr, namedSum, importOf ''Arr''] busyText = Inr []
   \<and> list_all plainImport [wildcardArr, namedSum, importOf ''Arr'']
   \<and> occurrences ''Sum'' idleText = 1
   \<and> occurrences ''Sum'' busyText = 2
   \<and> wildcardArr \<notin> set [namedSum, importOf ''Arr'']
   \<and> namedSum \<in> set [namedSum, importOf ''Arr'']
   \<and> namedSum \<notin> set ([] :: ImportStatement list)"
proof -
  let ?imps = "[wildcardArr, namedSum, importOf ''Arr'']"
  have idle: "getUnusedImports noRegExpHost ?imps idleText = Inr [namedSum, importOf ''Arr'']"
    by (simp add: example_unused example_access)
  have busy: "getUnusedImports noRegExpHost ?imps busyText = Inr []"
    by (simp add: example_unused example_access)
  have plain: "list_all plainImport ?imps"
    using identifier_plain [OF example_identifiers(1)] identifier_plain [OF example_identifiers(2)]
    by (simp add: plainImport_def wildcardArr_def namedSum_def importOf_def symbolLocalName_def)
  have mem: "wildcardArr \<in> set ?imps" "namedSum \<in> set ?imps"
    by simp_all
  have w: "wildcardArr \<notin> set [namedSum, importOf ''Arr'']"
    using unused_imports_heuristic
      [of ?imps noRegExpHost idleText "[namedSum, importOf ''Arr'']" wildcardArr]
      idle mem(1)
    by (simp add: wildcardArr_def)
  have n1: "namedSum \<in> set [namedSum, importOf ''Arr'']"
    by simp
  have n2: "namedSum \<notin> set ([] :: ImportStatement list)"
    using unused_imports_heuristic
      [of ?imps noRegExpHost busyText "[]" namedSum "\<lparr>sym_name = ''Sum'', sym_alias = None\<rparr>"]
      busy mem(2) example_identifiers occurrences_Sum
    by simp
  show ?thesis
    using idle busy plain occurrences_Sum w n1 n2 by simp
qed

text \<open>
  C8 as stated fails for a name outside the identifiers: the text below holds the local
  name of the import three times, and the import is reported, because no place where
  the name stands is between a word character and another character.
\<close>

theorem unused_imports_counterexample:
  "cafeText = ''import {'' @ cafe @ ''} from Menu'' @ [CHR 0x0A]
              @ ''x := '' @ cafe @ ''(1) + '' @ cafe @ ''(2)''
   \<and> symbols namedCafe = [\<lparr>sym_name = cafe, sym_alias = None\<rparr>]
   \<and> importType namedCafe = ''named''
   \<and> getUnusedImports noRegExpHost [namedCafe] cafeText = Inr [namedCafe]"
proof -
  have plain: "plainName cafe"
    by (simp add: plainName_def cafe_def isSyntaxChar_def)
  have "countMatches cafe 0 None cafeText = 0"
    by (simp add: cafe_def cafeText_def matchWordHere_def wordBoundary_def headOpt_def
        lastOpt_def isWordOpt_def isWordChar_def)
  then have "isUnusedImport noRegExpHost cafeText namedCafe = Inr True"
    by (simp add: isUnusedImport_def namedCafe_def symbolLocalName_def countSymbol_def plain)
  then show ?thesis
    by (simp add: cafeText_def namedCafe_def)
qed

section \<open>Properties of the diagnostic aggregator\<close>

subsection \<open>The example store\<close>

lemma normalizeUri_mainUri: "normalizeUri mainUri = ''/ws/main.ahk''"
  by code_simp

lemma setDiagnostics_store:
  "diagnostics (setDiagnostics agg uri src diags) =
     AList.update (normalizeUri uri)
       (AList.update src diags
          (case map_of (diagnostics agg) (normalizeUri uri) of None \<Rightarrow> [] | Some fd \<Rightarrow> fd))
       (diagnostics agg)"
  by (simp add: setDiagnostics_def Let_def update_conv split: option.splits)

lemma lintAggregator_store:
  "diagnostics lintAggregator =
     [(''/ws/main.ahk'', [(Static, [unusedDiag]), (Lsp, [unusedDiag, syntaxDiag])])]"
  by (simp add: lintAggregator_def setDiagnostics_store normalizeUri_mainUri newAggregator_def)

lemma lint_getDiagnostics:
  "getDiagnostics lintAggregator mainUri =
     [\<lparr>diagnostic = syntaxDiag, source = Lsp, priority = 2\<rparr>,
      \<lparr>diagnostic = unusedDiag, source = Lsp, priority = 2\<rparr>,
      \<lparr>diagnostic = unusedDiag, source = Static, priority = 3\<rparr>]"
  by (simp add: getDiagnostics_def lintAggregator_store normalizeUri_mainUri collectAggregated_def
      sortWith_def compareAggregated_def startLine_def unusedDiag_def syntaxDiag_def diagAt_def)

lemma lint_keys:
  "diagnosticKey syntaxDiag = ''1:2:syntax error''"
  "diagnosticKey unusedDiag = ''3:0:unused variable''"
  by code_simp+

lemma lint_deduplicated:
  "getDeduplicatedDiagnostics lintAggregator mainUri = [syntaxDiag, unusedDiag]"
  by (simp add: getDeduplicatedDiagnostics_def lint_getDiagnostics seeDiagnostic_def lint_keys)

subsection \<open>The merged view\<close>

lemma mset_insertSorted: "mset (insertSorted cmp x ys) = add_mset x (mset ys)"
  by (induction ys) simp_all

lemma mset_sortWith: "mset (sortWith cmp xs) = mset xs"
  by (induction xs) (simp_all add: sortWith_def mset_insertSorted)

lemma set_insertSorted: "set (insertSorted cmp x ys) = insert x (set ys)"
  by (induction ys) auto

lemma sorted_insertSorted:
  assumes le: "\<And>x y. cmp x y \<le> 0 \<longleftrightarrow> le x y"
    and total: "\<And>x y. le x y \<or> le y x"
    and trans: "\<And>x y z. le x y \<Longrightarrow> le y z \<Longrightarrow> le x z"
  shows "sorted_wrt le ys \<Longrightarrow> sorted_wrt le (insertSorted cmp x ys)"
proof (induction ys)
  case Nil
  then show ?case by simp
next
  case (Cons y ys)
  show ?case
  proof (cases "cmp x y \<le> 0")
    case True
    then have "le x y" using le by simp
    then have "\<forall>z\<in>set ys. le x z"
      using Cons.prems trans by auto
    with True \<open>le x y\<close> Cons.prems show ?thesis by simp
  next
    case False
    then have "le y x" using le total by blast
    with False Cons show ?thesis
      by (auto simp: set_insertSorted)
  qed
qed

lemma sorted_sortWith:
  assumes le: "\<And>x y. cmp x y \<le> 0 \<longleftrightarrow> le x y"
    and total: "\<And>x y. le x y \<or> le y x"
    and trans: "\<And>x y z. le x y \<Longrightarrow> le y z \<Longrightarrow> le x z"
  shows "sorted_wrt le (sortWith cmp xs)"
proof (induction xs)
  case Nil
  then show ?case by (simp add: sortWith_def)
next
  case (Cons x xs)
  then show ?case
    using sorted_insertSorted [of cmp le "sortWith cmp xs" x, OF le total trans]
    by (simp add: sortWith_def)
qed

lemma filter_insertSorted_in:
  "P x \<Longrightarrow> (\<And>y. P y \<Longrightarrow> cmp x y \<le> 0)
   \<Longrightarrow> filter P (insertSorted cmp x ys) = x # filter P ys"
  by (induction ys) auto

lemma filter_insertSorted_out:
  "\<not> P x \<Longrightarrow> filter P (insertSorted cmp x ys) = filter P ys"
  by (induction ys) auto

lemma filter_sortWith:
  assumes "\<And>x y. P x \<Longrightarrow> P y \<Longrightarrow> cmp x y \<le> 0"
  shows "filter P (sortWith cmp xs) = filter P xs"
proof (induction xs)
  case Nil
  then show ?case by (simp add: sortWith_def)
next
  case (Cons x xs)
  have step: "sortWith cmp (x # xs) = insertSorted cmp x (sortWith cmp xs)"
    by (simp add: sortWith_def)
  show ?case
  proof (cases "P x")
    case True
    then show ?thesis
      using Cons assms by (simp add: step filter_insertSorted_in)
  next
    case False
    then show ?thesis
      using Cons by (simp add: step filter_insertSorted_out)
  qed
qed

lemma compareAggregated_le: "compareAggregated a b \<le> 0 \<longleftrightarrow> rankLineLeq a b"
  by (auto simp: compareAggregated_def rankLineLeq_def)

lemma getDiagnostics_merged:
  "getDiagnostics agg uri = sortWith compareAggregated (mergedDiagnostics agg uri)"
  by (simp add: getDiagnostics_def mergedDiagnostics_def sortWith_def split: option.splits)

lemma sorted_wrt_index_less:
  assumes "sorted_wrt le xs" "i < length xs" "j < length xs" "\<not> le (xs ! j) (xs ! i)" "le (xs ! i) (xs ! i)"
  shows "i < j"
proof (rule ccontr)
  assume "\<not> i < j"
  then consider "i = j" | "j < i" by linarith
  then show False
  proof cases
    case 1
    with assms show False by simp
  next
    case 2
    then have "le (xs ! j) (xs ! i)"
      using assms(1,2) sorted_wrt_nth_less by blast
    with assms show False by simp
  qed
qed

lemma priority_collect:
  "a \<in> set (collectAggregated fd) \<Longrightarrow> priority a = SOURCE_PRIORITY (source a)"
  by (auto simp: collectAggregated_def)

lemma mem_collect:
  "distinct (map fst fd) \<Longrightarrow>
   a \<in> set (collectAggregated fd) \<longleftrightarrow>
     (\<exists>ds. map_of fd (source a) = Some ds \<and> diagnostic a \<in> set ds
        \<and> priority a = SOURCE_PRIORITY (source a))"
proof -
  assume d: "distinct (map fst fd)"
  have "a \<in> set (collectAggregated fd) \<longleftrightarrow>
          (\<exists>ds. (source a, ds) \<in> set fd \<and> diagnostic a \<in> set ds
             \<and> priority a = SOURCE_PRIORITY (source a))"
  proof
    assume "a \<in> set (collectAggregated fd)"
    then show "\<exists>ds. (source a, ds) \<in> set fd \<and> diagnostic a \<in> set ds
             \<and> priority a = SOURCE_PRIORITY (source a)"
      by (auto simp: collectAggregated_def)
  next
    assume "\<exists>ds. (source a, ds) \<in> set fd \<and> diagnostic a \<in> set ds
             \<and> priority a = SOURCE_PRIORITY (source a)"
    then obtain ds where ds: "(source a, ds) \<in> set fd" "diagnostic a \<in> set ds"
        "priority a = SOURCE_PRIORITY (source a)"
      by blast
    have "a = \<lparr>diagnostic = diagnostic a, source = source a,
               priority = SOURCE_PRIORITY (source a)\<rparr>"
      using ds(3) by (cases a) simp
    then have "a \<in> (\<lambda>d. \<lparr>diagnostic = d, source = source a,
               priority = SOURCE_PRIORITY (source a)\<rparr>) ` set ds"
      using ds(2) by (rule image_eqI)
    then show "a \<in> set (collectAggregated fd)"
      using ds(1) by (force simp: collectAggregated_def)
  qed
  then show ?thesis
    using d by (simp add: map_of_eq_Some_iff)
qed

lemma set_update_subset:
  "x \<in> set (AList.update k v al) \<Longrightarrow> x = (k, v) \<or> x \<in> set al"
  by (induction al) (auto split: if_splits)

lemma wellFormedStore_new: "wellFormedStore newAggregator"
  by (simp add: wellFormedStore_def newAggregator_def)

lemma wellFormedStore_setDiagnostics:
  assumes "wellFormedStore agg"
  shows "wellFormedStore (setDiagnostics agg uri src diags)"
proof -
  let ?fd = "case map_of (diagnostics agg) (normalizeUri uri) of None \<Rightarrow> [] | Some fd \<Rightarrow> fd"
  have "distinct (map fst ?fd)"
    using assms
    by (auto simp: wellFormedStore_def list_all_iff split: option.splits dest!: map_of_SomeD)
  then have "distinct (map fst (AList.update src diags ?fd))"
    by (rule distinct_update)
  then show ?thesis
    using assms
    by (auto simp: wellFormedStore_def setDiagnostics_store list_all_iff distinct_update
        dest!: set_update_subset)
qed


lemma getDiagnostics_sorted: "sorted_wrt rankLineLeq (getDiagnostics agg uri)"
  unfolding getDiagnostics_merged
  by (rule sorted_sortWith [OF compareAggregated_le]) (auto simp: rankLineLeq_def)

text \<open>
  C5. For every file, \<^verbatim>\<open>getDiagnostics\<close> returns the stored diagnostics of all
  producers, each once for each time it is stored: the result is a rearrangement of the
  merged lists, and in a store whose maps hold each key once an entry is in the result
  exactly when its diagnostic is stored for its source and its priority is the rank of
  the source. The result ascends by priority rank and then by start line, with the ranks
  of the runtime source, the language service, the static analysis and the custom
  source in this order; of two entries on one start line the one of the source of
  higher authority comes first, whenever each was stored; and entries of one rank and
  one start line keep the order in which the loops met them.
\<close>

theorem getDiagnostics_priority_order:
  "mset (getDiagnostics agg uri) = mset (mergedDiagnostics agg uri)
   \<and> sorted_wrt rankLineLeq (getDiagnostics agg uri)
   \<and> (\<forall>p l. filter (\<lambda>a. priority a = p \<and> startLine (diagnostic a) = l) (getDiagnostics agg uri)
            = filter (\<lambda>a. priority a = p \<and> startLine (diagnostic a) = l) (mergedDiagnostics agg uri))
   \<and> (\<forall>a\<in>set (getDiagnostics agg uri). priority a = SOURCE_PRIORITY (source a))
   \<and> SOURCE_PRIORITY Alpha < SOURCE_PRIORITY Lsp
   \<and> SOURCE_PRIORITY Lsp < SOURCE_PRIORITY Static
   \<and> SOURCE_PRIORITY Static < SOURCE_PRIORITY Custom
   \<and> (\<forall>i j. i < length (getDiagnostics agg uri) \<and> j < length (getDiagnostics agg uri)
          \<and> startLine (diagnostic (getDiagnostics agg uri ! i))
              = startLine (diagnostic (getDiagnostics agg uri ! j))
          \<and> SOURCE_PRIORITY (source (getDiagnostics agg uri ! i))
              < SOURCE_PRIORITY (source (getDiagnostics agg uri ! j))
        \<longrightarrow> i < j)
   \<and> (wellFormedStore agg \<longrightarrow>
        (\<forall>a. a \<in> set (getDiagnostics agg uri)
           \<longleftrightarrow> diagnostic a \<in> set (getDiagnosticsFromSource agg uri (source a))
               \<and> priority a = SOURCE_PRIORITY (source a)))"
proof -
  let ?r = "getDiagnostics agg uri"
  let ?m = "mergedDiagnostics agg uri"
  have perm: "mset ?r = mset ?m"
    by (simp add: getDiagnostics_merged mset_sortWith)
  have sorted: "sorted_wrt rankLineLeq ?r"
    by (rule getDiagnostics_sorted)
  have stable: "filter (\<lambda>a. priority a = p \<and> startLine (diagnostic a) = l) ?r
            = filter (\<lambda>a. priority a = p \<and> startLine (diagnostic a) = l) ?m" for p l
    unfolding getDiagnostics_merged
    by (rule filter_sortWith) (simp add: compareAggregated_def)
  have set_eq: "set ?r = set ?m"
    using perm by (rule mset_eq_setD)
  have prio: "\<forall>a\<in>set ?r. priority a = SOURCE_PRIORITY (source a)"
    unfolding set_eq
    by (auto simp: mergedDiagnostics_def priority_collect split: option.splits)
  have pairs: "i < j"
    if "i < length ?r" "j < length ?r"
      "startLine (diagnostic (?r ! i)) = startLine (diagnostic (?r ! j))"
      "SOURCE_PRIORITY (source (?r ! i)) < SOURCE_PRIORITY (source (?r ! j))" for i j
  proof (rule sorted_wrt_index_less [OF sorted that(1,2)])
    have "priority (?r ! i) < priority (?r ! j)"
      using that prio by simp
    then show "\<not> rankLineLeq (?r ! j) (?r ! i)"
      by (simp add: rankLineLeq_def)
    show "rankLineLeq (?r ! i) (?r ! i)"
      by (simp add: rankLineLeq_def)
  qed
  have mem: "a \<in> set ?r
           \<longleftrightarrow> diagnostic a \<in> set (getDiagnosticsFromSource agg uri (source a))
               \<and> priority a = SOURCE_PRIORITY (source a)"
    if wf: "wellFormedStore agg" for a
  proof (cases "map_of (diagnostics agg) (normalizeUri uri)")
    case None
    then show ?thesis
      by (simp add: set_eq mergedDiagnostics_def getDiagnosticsFromSource_def)
  next
    case (Some fd)
    then have "distinct (map fst fd)"
      using wf by (auto simp: wellFormedStore_def list_all_iff dest!: map_of_SomeD)
    then show ?thesis
      using Some
      by (auto simp: set_eq mergedDiagnostics_def getDiagnosticsFromSource_def mem_collect
          split: option.splits)
  qed
  show ?thesis
    using perm sorted stable prio pairs mem by simp
qed

theorem getDiagnostics_priority_order_witness:
  "getDiagnostics lintAggregator mainUri =
     [\<lparr>diagnostic = syntaxDiag, source = Lsp, priority = 2\<rparr>,
      \<lparr>diagnostic = unusedDiag, source = Lsp, priority = 2\<rparr>,
      \<lparr>diagnostic = unusedDiag, source = Static, priority = 3\<rparr>]
   \<and> mergedDiagnostics lintAggregator mainUri =
     [\<lparr>diagnostic = unusedDiag, source = Static, priority = 3\<rparr>,
      \<lparr>diagnostic = unusedDiag, source = Lsp, priority = 2\<rparr>,
      \<lparr>diagnostic = syntaxDiag, source = Lsp, priority = 2\<rparr>]
   \<and> wellFormedStore lintAggregator
   \<and> sorted_wrt rankLineLeq (getDiagnostics lintAggregator mainUri)
   \<and> mset (getDiagnostics lintAggregator mainUri) = mset (mergedDiagnostics lintAggregator mainUri)"
proof -
  have wf: "wellFormedStore lintAggregator"
    by (simp add: lintAggregator_def wellFormedStore_setDiagnostics wellFormedStore_new)
  have m: "mergedDiagnostics lintAggregator mainUri =
     [\<lparr>diagnostic = unusedDiag, source = Static, priority = 3\<rparr>,
      \<lparr>diagnostic = unusedDiag, source = Lsp, priority = 2\<rparr>,
      \<lparr>diagnostic = syntaxDiag, source = Lsp, priority = 2\<rparr>]"
    by (simp add: mergedDiagnostics_def lintAggregator_store normalizeUri_mainUri
        collectAggregated_def)
  show ?thesis
    using getDiagnostics_priority_order [of lintAggregator mainUri] wf m lint_getDiagnostics
    by simp
qed

subsection \<open>Deduplication\<close>

text \<open>
  The key is a string; as no decimal numeral holds a colon, two keys are equal exactly when
  the three parts are.
\<close>

lemma showNat_not_empty: "showNat n \<noteq> []"
  by (subst showNat.simps) simp

lemma digit_inj: "a < 10 \<Longrightarrow> b < 10 \<Longrightarrow> (char_of (48 + a) :: char) = char_of (48 + b) \<Longrightarrow> a = (b::nat)"
proof -
  assume a: "a < 10" and b: "b < 10" and e: "(char_of (48 + a) :: char) = char_of (48 + b)"
  have "of_char (char_of (48 + a) :: char) = (of_char (char_of (48 + b) :: char) :: nat)"
    using e by simp
  then have "(48 + a) mod 256 = (48 + b) mod 256"
    by (simp add: of_char_of)
  with a b show ?thesis by simp
qed

lemma digit_not_colon: "(a::nat) < 10 \<Longrightarrow> (char_of (48 + a) :: char) \<noteq> CHR '':''"
proof
  assume a: "a < 10" and e: "(char_of (48 + a) :: char) = CHR '':''"
  have "of_char (char_of (48 + a) :: char) = (of_char CHR '':'' :: nat)"
    using e by simp
  then have "(48 + a) mod 256 = 58"
    by (simp add: of_char_of)
  with a show False by simp
qed

lemma showNat_no_colon: "CHR '':'' \<notin> set (showNat n)"
proof (induction n rule: showNat.induct)
  case (1 n)
  show ?case
  proof (cases "n < 10")
    case True
    then show ?thesis
      using digit_not_colon [of n] by (subst showNat.simps) auto
  next
    case False
    moreover have "n mod 10 < 10" by simp
    ultimately show ?thesis
      using 1 digit_not_colon [of "n mod 10"] by (subst showNat.simps) auto
  qed
qed

lemma showNat_inj: "showNat n = showNat m \<Longrightarrow> n = m"
proof (induction n arbitrary: m rule: showNat.induct)
  case (1 n)
  show ?case
  proof (cases "n < 10")
    case n: True
    show ?thesis
    proof (cases "m < 10")
      case True
      then show ?thesis
        using "1.prems" n digit_inj [of n m]
        by (simp add: showNat.simps [of n] showNat.simps [of m])
    next
      case False
      then show ?thesis
        using "1.prems" n showNat_not_empty [of "m div 10"]
        by (simp add: showNat.simps [of n] showNat.simps [of m])
    qed
  next
    case n: False
    show ?thesis
    proof (cases "m < 10")
      case True
      then show ?thesis
        using "1.prems" n showNat_not_empty [of "n div 10"]
        by (simp add: showNat.simps [of n] showNat.simps [of m])
    next
      case False
      then have "showNat (n div 10) = showNat (m div 10)"
        and d: "(char_of (48 + n mod 10) :: char) = char_of (48 + m mod 10)"
        using "1.prems" n by (simp_all add: showNat.simps [of n] showNat.simps [of m])
      then have q: "n div 10 = m div 10"
        using "1.IH" n by simp
      have r: "n mod 10 = m mod 10"
        using digit_inj [OF _ _ d] by simp
      have "n = n div 10 * 10 + n mod 10"
        by simp
      also have "\<dots> = m div 10 * 10 + m mod 10"
        by (simp only: q r)
      also have "\<dots> = m"
        by simp
      finally show ?thesis .
    qed
  qed
qed

lemma split_at_colon:
  assumes "a @ CHR '':'' # b = c @ CHR '':'' # d" "CHR '':'' \<notin> set a" "CHR '':'' \<notin> set c"
  shows "a = c \<and> b = d"
  using assms
proof (induction a arbitrary: c)
  case Nil
  then show ?case by (cases c) auto
next
  case (Cons x a)
  then show ?case by (cases c) auto
qed

lemma diagnosticKey_eq_iff:
  "diagnosticKey d = diagnosticKey d' \<longleftrightarrow> dedupKey d = dedupKey d'"
proof
  assume e: "diagnosticKey d = diagnosticKey d'"
  then have 1: "showNat (startLine d) = showNat (startLine d')"
    and r: "showNat (startCharacter d) @ CHR '':'' # take 50 (d_message d)
          = showNat (startCharacter d') @ CHR '':'' # take 50 (d_message d')"
    using split_at_colon [OF _ showNat_no_colon showNat_no_colon]
    by (auto simp: diagnosticKey_def)
  from r have "showNat (startCharacter d) = showNat (startCharacter d')"
    and "take 50 (d_message d) = take 50 (d_message d')"
    using split_at_colon [OF _ showNat_no_colon showNat_no_colon] by auto
  with 1 show "dedupKey d = dedupKey d'"
    by (simp add: dedupKey_def showNat_inj)
next
  assume "dedupKey d = dedupKey d'"
  then show "diagnosticKey d = diagnosticKey d'"
    by (simp add: dedupKey_def diagnosticKey_def)
qed

lemma map_of_seeDiagnostic:
  "map_of (seeDiagnostic a seen) k =
     (case map_of seen k of
        Some d \<Rightarrow> Some d
      | None \<Rightarrow> if keyOf a = k then Some (diagnostic a) else None)"
  by (auto simp: seeDiagnostic_def keyOf_def Let_def update_conv split: option.splits)

lemma map_of_fold_seeDiagnostic:
  "map_of (fold seeDiagnostic xs seen) k =
     (case map_of seen k of
        Some d \<Rightarrow> Some d
      | None \<Rightarrow> map_option diagnostic (find (\<lambda>a. keyOf a = k) xs))"
  by (induction xs arbitrary: seen) (auto simp: map_of_seeDiagnostic split: option.splits)

lemma distinct_seeDiagnostic:
  "distinct (map fst seen) \<Longrightarrow> distinct (map fst (seeDiagnostic a seen))"
  by (simp add: seeDiagnostic_def Let_def distinct_update)

lemma distinct_fold_seeDiagnostic:
  "distinct (map fst seen) \<Longrightarrow> distinct (map fst (fold seeDiagnostic xs seen))"
  by (induction xs arbitrary: seen) (simp_all add: distinct_seeDiagnostic)

lemma seen_entries:
  assumes "(k, d) \<in> set (fold seeDiagnostic xs [])"
  shows "\<exists>a. find (\<lambda>a. keyOf a = k) xs = Some a \<and> diagnostic a = d"
proof -
  have "distinct (map fst (fold seeDiagnostic xs []))"
    by (rule distinct_fold_seeDiagnostic) simp
  then have "map_of (fold seeDiagnostic xs []) k = Some d"
    using assms by simp
  then show ?thesis
    by (auto simp: map_of_fold_seeDiagnostic)
qed

lemma seen_key:
  assumes "(k, d) \<in> set (fold seeDiagnostic xs [])"
  shows "diagnosticKey d = k"
proof -
  obtain a where "find (\<lambda>a. keyOf a = k) xs = Some a" "diagnostic a = d"
    using seen_entries [OF assms] by blast
  then show ?thesis
    by (auto simp: find_Some_iff keyOf_def)
qed

lemma seen_keys_map:
  "map diagnosticKey (map snd (fold seeDiagnostic xs [])) = map fst (fold seeDiagnostic xs [])"
  using seen_key by (auto simp: map_eq_conv)

lemma seen_every_key:
  assumes "a \<in> set xs"
  shows "\<exists>d. (keyOf a, d) \<in> set (fold seeDiagnostic xs [])"
proof -
  have "find (\<lambda>b. keyOf b = keyOf a) xs \<noteq> None"
    using assms by (auto simp: find_None_iff)
  then have "map_of (fold seeDiagnostic xs []) (keyOf a) \<noteq> None"
    by (auto simp: map_of_fold_seeDiagnostic)
  then show ?thesis
    by (auto dest: map_of_SomeD)
qed

lemma distinct_map_filter_one:
  "distinct (map f xs) \<Longrightarrow> x \<in> set xs \<Longrightarrow> length (filter (\<lambda>y. f y = f x) xs) = 1"
proof (induction xs)
  case Nil
  then show ?case by simp
next
  case (Cons y ys)
  show ?case
  proof (cases "f y = f x")
    case True
    then have "f x \<notin> f ` set ys"
      using Cons.prems by auto
    then have "filter (\<lambda>z. f z = f x) ys = []"
      by (induction ys) auto
    with True show ?thesis by simp
  next
    case False
    then show ?thesis
      using Cons by auto
  qed
qed

text \<open>
  C6. For every file, \<^verbatim>\<open>getDeduplicatedDiagnostics\<close> works on the result of
  \<^verbatim>\<open>getDiagnostics\<close> and keeps one diagnostic for each triple of start line, start
  column and first fifty characters of the message found there: no two diagnostics of its
  result have the same triple, the triples of its result are those of the merged view,
  each diagnostic it keeps is that of the first entry of the sorted view with its triple,
  so that no entry with the same triple has a smaller priority rank, and every entry of
  the view, whatever its producer, has exactly one diagnostic of its triple in the result.
\<close>

theorem deduplicated_keeps_first:
  "distinct (map dedupKey (getDeduplicatedDiagnostics agg uri))
   \<and> dedupKey ` set (getDeduplicatedDiagnostics agg uri)
       = (\<lambda>a. dedupKey (diagnostic a)) ` set (getDiagnostics agg uri)
   \<and> (\<forall>d\<in>set (getDeduplicatedDiagnostics agg uri).
         \<exists>a. find (\<lambda>a. dedupKey (diagnostic a) = dedupKey d) (getDiagnostics agg uri) = Some a
            \<and> diagnostic a = d)
   \<and> (\<forall>d\<in>set (getDeduplicatedDiagnostics agg uri). \<forall>b\<in>set (getDiagnostics agg uri).
         dedupKey (diagnostic b) = dedupKey d
         \<longrightarrow> (\<exists>a\<in>set (getDiagnostics agg uri). diagnostic a = d \<and> priority a \<le> priority b))
   \<and> (\<forall>a\<in>set (getDiagnostics agg uri).
         length (filter (\<lambda>d. dedupKey d = dedupKey (diagnostic a))
                   (getDeduplicatedDiagnostics agg uri)) = 1)"
proof -
  let ?ag = "getDiagnostics agg uri"
  let ?seen = "fold seeDiagnostic ?ag []"
  let ?r = "getDeduplicatedDiagnostics agg uri"
  have r: "?r = map snd ?seen"
    by (simp add: getDeduplicatedDiagnostics_def)
  have keys: "map diagnosticKey ?r = map fst ?seen"
    unfolding r by (rule seen_keys_map)
  have "distinct (map diagnosticKey ?r)"
    unfolding keys by (rule distinct_fold_seeDiagnostic) simp
  then have "inj_on diagnosticKey (set ?r)" "distinct ?r"
    by (simp_all add: distinct_map)
  then have dist: "distinct (map dedupKey ?r)"
    by (auto simp: distinct_map inj_on_def diagnosticKey_eq_iff)
  have first: "\<exists>a. find (\<lambda>a. dedupKey (diagnostic a) = dedupKey d) ?ag = Some a \<and> diagnostic a = d"
    if dr: "d \<in> set ?r" for d
  proof -
    obtain k where k: "(k, d) \<in> set ?seen"
      using dr unfolding r by force
    then have kd: "diagnosticKey d = k"
      by (rule seen_key)
    obtain a where a: "find (\<lambda>a. keyOf a = k) ?ag = Some a" "diagnostic a = d"
      using seen_entries [OF k] by blast
    have "(\<lambda>a. keyOf a = k) = (\<lambda>a. dedupKey (diagnostic a) = dedupKey d)"
      by (simp add: keyOf_def diagnosticKey_eq_iff flip: kd)
    with a show ?thesis by auto
  qed
  have every: "\<exists>d\<in>set ?r. dedupKey d = dedupKey (diagnostic a)" if a: "a \<in> set ?ag" for a
  proof -
    obtain d where d: "(keyOf a, d) \<in> set ?seen"
      using seen_every_key [OF a] by blast
    then have "diagnosticKey d = keyOf a"
      by (rule seen_key)
    then have "dedupKey d = dedupKey (diagnostic a)"
      by (simp add: keyOf_def diagnosticKey_eq_iff)
    moreover have "d \<in> set ?r"
      unfolding r using d by force
    ultimately show ?thesis by blast
  qed
  have img: "dedupKey ` set ?r = (\<lambda>a. dedupKey (diagnostic a)) ` set ?ag"
  proof (intro set_eqI iffI)
    fix k assume "k \<in> dedupKey ` set ?r"
    then obtain d where d: "d \<in> set ?r" "k = dedupKey d" by auto
    then obtain a where "find (\<lambda>a. dedupKey (diagnostic a) = dedupKey d) ?ag = Some a"
        "diagnostic a = d"
      using first by blast
    then have "a \<in> set ?ag"
      by (auto simp: find_Some_iff)
    with d \<open>diagnostic a = d\<close> show "k \<in> (\<lambda>a. dedupKey (diagnostic a)) ` set ?ag"
      by auto
  next
    fix k assume "k \<in> (\<lambda>a. dedupKey (diagnostic a)) ` set ?ag"
    then obtain a where a: "a \<in> set ?ag" "k = dedupKey (diagnostic a)"
      by auto
    then obtain d where "d \<in> set ?r" "dedupKey d = dedupKey (diagnostic a)"
      using every by blast
    with a show "k \<in> dedupKey ` set ?r"
      by (simp add: image_iff) (rule bexI [of _ d], simp_all)
  qed
  have sorted: "sorted_wrt rankLineLeq ?ag"
    by (rule getDiagnostics_sorted)
  have best: "\<exists>a\<in>set ?ag. diagnostic a = d \<and> priority a \<le> priority b"
    if d: "d \<in> set ?r" and b: "b \<in> set ?ag" "dedupKey (diagnostic b) = dedupKey d" for d b
  proof -
    obtain a where a: "find (\<lambda>a. dedupKey (diagnostic a) = dedupKey d) ?ag = Some a"
        "diagnostic a = d"
      using first [OF d] by blast
    then obtain i where i: "i < length ?ag" "a = ?ag ! i"
        "\<forall>j<i. dedupKey (diagnostic (?ag ! j)) \<noteq> dedupKey d"
      by (auto simp: find_Some_iff)
    obtain j where j: "j < length ?ag" "b = ?ag ! j"
      using b(1) by (auto simp: in_set_conv_nth)
    have "i \<le> j"
      using i(3) j b(2) by (meson not_le)
    then consider "i = j" | "i < j" by linarith
    then have "priority a \<le> priority b"
    proof cases
      case 1
      then show ?thesis using i j by simp
    next
      case 2
      then have "rankLineLeq a b"
        using sorted_wrt_nth_less [OF sorted 2 j(1)] i(2) j(2) by simp
      then show ?thesis by (auto simp: rankLineLeq_def)
    qed
    moreover have "a \<in> set ?ag"
      using i by simp
    ultimately show ?thesis
      using a(2) by blast
  qed
  have one: "length (filter (\<lambda>d. dedupKey d = dedupKey (diagnostic a)) ?r) = 1"
    if a: "a \<in> set ?ag" for a
  proof -
    obtain d where d: "d \<in> set ?r" "dedupKey d = dedupKey (diagnostic a)"
      using every [OF a] by blast
    then show ?thesis
      using distinct_map_filter_one [OF dist d(1)] by simp
  qed
  show ?thesis
    by (intro conjI ballI impI) (rule dist img first best one; assumption)+
qed

theorem deduplicated_keeps_first_witness:
  "getDeduplicatedDiagnostics lintAggregator mainUri = [syntaxDiag, unusedDiag]
   \<and> length (getDiagnostics lintAggregator mainUri) = 3
   \<and> distinct (map dedupKey (getDeduplicatedDiagnostics lintAggregator mainUri))
   \<and> length (filter (\<lambda>d. dedupKey d = dedupKey unusedDiag)
               (getDeduplicatedDiagnostics lintAggregator mainUri)) = 1"
  using deduplicated_keeps_first [of lintAggregator mainUri]
  by (simp add: lint_deduplicated lint_getDiagnostics)

subsection \<open>Reports of the runtime source\<close>

lemma stored_setDiagnostics:
  "getDiagnosticsFromSource (setDiagnostics agg uri src diags) uri src = diags"
  by (simp add: getDiagnosticsFromSource_def setDiagnostics_store update_conv)

lemma stored_setDiagnostics_other:
  "normalizeUri uri' \<noteq> normalizeUri uri \<or> src' \<noteq> src \<Longrightarrow>
   getDiagnosticsFromSource (setDiagnostics agg uri src diags) uri' src'
     = getDiagnosticsFromSource agg uri' src'"
  by (auto simp: getDiagnosticsFromSource_def setDiagnostics_store update_conv
      split: option.splits)

lemma convertAll_Inr:
  "convertAll ds = Inr xs \<longleftrightarrow> map convertAlphaDiagnostic ds = map Inr xs"
proof (induction ds arbitrary: xs)
  case Nil
  then show ?case by auto
next
  case (Cons d ds)
  show ?case
  proof (cases "convertAlphaDiagnostic d")
    case (Inl e)
    then show ?thesis by (cases xs) auto
  next
    case (Inr x)
    show ?thesis
    proof (cases "convertAll ds")
      case (Inl e)
      then have "\<And>ys. map convertAlphaDiagnostic ds \<noteq> map Inr ys"
        using Cons.IH by auto
      then show ?thesis
        using Inl Inr by (cases xs) auto
    next
      case ys: (Inr ys)
      then have "map convertAlphaDiagnostic ds = map Inr ys"
        using Cons.IH by simp
      then show ?thesis
        using ys Inr by (cases xs) auto
    qed
  qed
qed

lemma setAlphaDiagnostics_accepted:
  "setAlphaDiagnostics pn idx agg uri raws =
     (case convertAll (acceptedAlpha pn idx uri raws) of
        Inl e \<Rightarrow> Inl e
      | Inr diags \<Rightarrow> Inr (setDiagnostics agg uri Alpha diags))"
  by (simp add: setAlphaDiagnostics_def acceptedAlpha_def)

lemma setAlphaDiagnostics_Inr:
  "setAlphaDiagnostics pn idx agg uri raws = Inr agg' \<longleftrightarrow>
     (\<exists>diags. map convertAlphaDiagnostic (acceptedAlpha pn idx uri raws) = map Inr diags
        \<and> agg' = setDiagnostics agg uri Alpha diags)"
proof (cases "convertAll (acceptedAlpha pn idx uri raws)")
  case (Inl e)
  then have "\<And>diags. map convertAlphaDiagnostic (acceptedAlpha pn idx uri raws) \<noteq> map Inr diags"
    using convertAll_Inr [of "acceptedAlpha pn idx uri raws"] by auto
  then show ?thesis
    using Inl by (simp add: setAlphaDiagnostics_accepted)
next
  case (Inr diags)
  then have m: "map convertAlphaDiagnostic (acceptedAlpha pn idx uri raws) = map Inr diags"
    by (simp add: convertAll_Inr)
  have "map Inr ys = (map Inr diags :: (error + Diagnostic) list) \<longleftrightarrow> ys = diags" for ys
    by (simp add: inj_map_eq_map)
  then show ?thesis
    using Inr m by (auto simp: setAlphaDiagnostics_accepted)
qed

lemma stored_setAlphaDiagnostics:
  assumes "setAlphaDiagnostics pn idx agg uri raws = Inr agg'"
  shows "map Inr (getDiagnosticsFromSource agg' uri Alpha)
           = map convertAlphaDiagnostic (acceptedAlpha pn idx uri raws)"
  using assms by (auto simp: setAlphaDiagnostics_Inr stored_setDiagnostics)

lemma mkRange_clamped:
  "0 \<le> a \<Longrightarrow> 0 \<le> b \<Longrightarrow> 0 \<le> c \<Longrightarrow> 0 \<le> e \<Longrightarrow>
   mkRange a b c e =
     Inr (if isBefore \<lparr>line = nat a, character = nat b\<rparr> \<lparr>line = nat c, character = nat e\<rparr>
          then \<lparr>r_start = \<lparr>line = nat a, character = nat b\<rparr>,
                r_end = \<lparr>line = nat c, character = nat e\<rparr>\<rparr>
          else \<lparr>r_start = \<lparr>line = nat c, character = nat e\<rparr>,
                r_end = \<lparr>line = nat a, character = nat b\<rparr>\<rparr>)"
  by (simp add: mkRange_def mkPosition_def)

lemma endCharacter_eq:
  "endCharacter d = (if a_endColumn d \<le> 1 then 999 else a_endColumn d - 1)"
  by (auto simp: endCharacter_def)

lemma alphaRange:
  "mkRange (max 0 (a_line d - 1)) (max 0 (a_column d - 1))
           (max 0 (a_endLine d - 1)) (endCharacter d) =
     Inr (let p = \<lparr>line = nat (max 0 (a_line d - 1)), character = nat (max 0 (a_column d - 1))\<rparr>;
              q = \<lparr>line = nat (max 0 (a_endLine d - 1)),
                   character = (if a_endColumn d \<le> 1 then 999 else nat (a_endColumn d - 1))\<rparr>
          in if isBefore p q then \<lparr>r_start = p, r_end = q\<rparr> else \<lparr>r_start = q, r_end = p\<rparr>)"
proof -
  have e: "0 \<le> endCharacter d"
    by (simp add: endCharacter_eq)
  have n: "nat (endCharacter d) = (if a_endColumn d \<le> 1 then 999 else nat (a_endColumn d - 1))"
    by (simp add: endCharacter_eq)
  show ?thesis
    using mkRange_clamped [of "max 0 (a_line d - 1)" "max 0 (a_column d - 1)"
        "max 0 (a_endLine d - 1)" "endCharacter d"] e
    by (simp only: n Let_def)
qed

lemma convert_Inl:
  "alphaMessage d = [] \<Longrightarrow> convertAlphaDiagnostic d = Inl TypeError"
  by (simp add: convertAlphaDiagnostic_def alphaRange mkDiagnostic_def)

lemma convert_Inr:
  "alphaMessage d \<noteq> [] \<Longrightarrow>
   convertAlphaDiagnostic d =
     Inr \<lparr>d_range =
            (let p = \<lparr>line = nat (max 0 (a_line d - 1)),
                      character = nat (max 0 (a_column d - 1))\<rparr>;
                 q = \<lparr>line = nat (max 0 (a_endLine d - 1)),
                      character = (if a_endColumn d \<le> 1 then 999
                                   else nat (a_endColumn d - 1))\<rparr>
             in if isBefore p q then \<lparr>r_start = p, r_end = q\<rparr>
                else \<lparr>r_start = q, r_end = p\<rparr>),
          d_message = alphaMessage d,
          d_severity = toVsCodeSeverity (a_severity d),
          d_source = (if truthy (a_source d) then a_source d else Some ''ahk-alpha''),
          d_code = (if truthy (a_code d)
                    then Some (the (a_code d), ''https://www.autohotkey.com/docs/v2/'')
                    else None)\<rparr>"
  by (simp add: convertAlphaDiagnostic_def alphaRange mkDiagnostic_def)

lemma convert_Inr_iff:
  "(\<exists>x. convertAlphaDiagnostic d = Inr x) \<longleftrightarrow> alphaMessage d \<noteq> []"
  using convert_Inl [of d] convert_Inr [of d] by (cases "alphaMessage d = []") auto


lemma setAlphaDiagnostics_returns:
  "(\<exists>agg'. setAlphaDiagnostics pn idx agg uri raws = Inr agg')
     \<longleftrightarrow> (\<forall>d\<in>set (acceptedAlpha pn idx uri raws). alphaMessage d \<noteq> [])"
proof -
  have "(\<exists>diags. map convertAlphaDiagnostic ds = map Inr diags)
          \<longleftrightarrow> (\<forall>d\<in>set ds. alphaMessage d \<noteq> [])" for ds
  proof (induction ds)
    case Nil
    then show ?case by simp
  next
    case (Cons d ds)
    have "(\<exists>diags. map convertAlphaDiagnostic (d # ds) = map Inr diags)
          \<longleftrightarrow> (\<exists>x. convertAlphaDiagnostic d = Inr x)
              \<and> (\<exists>diags. map convertAlphaDiagnostic ds = map Inr diags)"
    proof
      assume "\<exists>diags. map convertAlphaDiagnostic (d # ds) = map Inr diags"
      then obtain diags where "map convertAlphaDiagnostic (d # ds) = map Inr diags"
        by blast
      then show "(\<exists>x. convertAlphaDiagnostic d = Inr x)
              \<and> (\<exists>diags. map convertAlphaDiagnostic ds = map Inr diags)"
        by (cases diags) auto
    next
      assume "(\<exists>x. convertAlphaDiagnostic d = Inr x)
              \<and> (\<exists>diags. map convertAlphaDiagnostic ds = map Inr diags)"
      then obtain x diags where "convertAlphaDiagnostic d = Inr x"
          "map convertAlphaDiagnostic ds = map Inr diags"
        by blast
      then have "map convertAlphaDiagnostic (d # ds) = map Inr (x # diags)"
        by simp
      then show "\<exists>diags. map convertAlphaDiagnostic (d # ds) = map Inr diags"
        by blast
    qed
    then show ?case
      using Cons.IH convert_Inr_iff [of d] by simp
  qed
  then show ?thesis
    by (simp add: setAlphaDiagnostics_Inr)
qed


text \<open>
  C7, as the code has it, for a report with a message. The conversion of a report whose
  message (with the extra detail) is not empty returns a diagnostic: no number it hands
  to the editor is negative. A severity that is none of the four known words becomes
  \<^const>\<open>Error\<close>. One position is made of the report's line and column, each less one,
  or zero where that is negative; the other of the end line less one, or zero where that
  is negative, and of the end column less one where the end column is greater than one,
  and 999 otherwise, so that a negative end column becomes 999, not zero. The range
  starts at the one of the two positions that is before the other. When every report that
  passes the filters has a message, the call returns, and the list stored for the
  runtime source has one diagnostic for each of these reports, in their order.
\<close>

theorem convert_clamps:
  "(alphaMessage d \<noteq> [] \<longrightarrow>
      (\<exists>x. convertAlphaDiagnostic d = Inr x
         \<and> (a_severity d \<notin> {''error'', ''warning'', ''info'', ''hint''} \<longrightarrow> d_severity x = Error)
         \<and> (let p = \<lparr>line = nat (max 0 (a_line d - 1)),
                       character = nat (max 0 (a_column d - 1))\<rparr>;
                  q = \<lparr>line = nat (max 0 (a_endLine d - 1)),
                       character = (if a_endColumn d \<le> 1 then 999
                                    else nat (a_endColumn d - 1))\<rparr>
              in d_range x = (if isBefore p q then \<lparr>r_start = p, r_end = q\<rparr>
                              else \<lparr>r_start = q, r_end = p\<rparr>)
                 \<and> (a_line d < 0 \<longrightarrow> line p = 0)
                 \<and> (a_column d < 0 \<longrightarrow> character p = 0)
                 \<and> (a_endLine d < 0 \<longrightarrow> line q = 0)
                 \<and> (a_endColumn d < 0 \<longrightarrow> character q = 999))))
   \<and> ((\<forall>r\<in>set (acceptedAlpha pn idx uri raws). alphaMessage r \<noteq> []) \<longrightarrow>
        (\<exists>agg'. setAlphaDiagnostics pn idx agg uri raws = Inr agg'
           \<and> length (getDiagnosticsFromSource agg' uri Alpha)
               = length (acceptedAlpha pn idx uri raws)
           \<and> (\<forall>i < length (acceptedAlpha pn idx uri raws).
                 convertAlphaDiagnostic (acceptedAlpha pn idx uri raws ! i)
                   = Inr (getDiagnosticsFromSource agg' uri Alpha ! i))))"
  (is "?single \<and> ?batch")
proof (rule conjI)
  show ?single
    by (auto simp: convert_Inr toVsCodeSeverity_def Let_def)
next
  show ?batch
  proof (rule impI)
    assume "\<forall>r\<in>set (acceptedAlpha pn idx uri raws). alphaMessage r \<noteq> []"
    then obtain agg' where ret: "setAlphaDiagnostics pn idx agg uri raws = Inr agg'"
      using setAlphaDiagnostics_returns [of pn idx agg uri raws] by blast
    note st = stored_setAlphaDiagnostics [OF ret]
    have len: "length (getDiagnosticsFromSource agg' uri Alpha)
               = length (acceptedAlpha pn idx uri raws)"
      using arg_cong [OF st, of length] by simp
    have nth: "convertAlphaDiagnostic (acceptedAlpha pn idx uri raws ! i)
                   = Inr (getDiagnosticsFromSource agg' uri Alpha ! i)"
      if i: "i < length (acceptedAlpha pn idx uri raws)" for i
      using arg_cong [OF st, of "\<lambda>l. l ! i"] i len by simp
    show "\<exists>agg'. setAlphaDiagnostics pn idx agg uri raws = Inr agg'
           \<and> length (getDiagnosticsFromSource agg' uri Alpha)
               = length (acceptedAlpha pn idx uri raws)
           \<and> (\<forall>i < length (acceptedAlpha pn idx uri raws).
                 convertAlphaDiagnostic (acceptedAlpha pn idx uri raws ! i)
                   = Inr (getDiagnosticsFromSource agg' uri Alpha ! i))"
      using ret len nth by blast
  qed
qed

text \<open>
  C7 as stated fails on the end column: for the report \<^const>\<open>oddReport\<close>, whose end
  column is \<open>-5\<close>, the converted range ends at the character 999.
\<close>

theorem convert_end_column_counterexample:
  "a_endColumn oddReport = - 5
   \<and> convertAlphaDiagnostic oddReport =
       Inr \<lparr>d_range = \<lparr>r_start = \<lparr>line = 0, character = 0\<rparr>,
                        r_end = \<lparr>line = 0, character = 999\<rparr>\<rparr>,
            d_message = ''Unexpected token'' @ [CHR 0x0A] @ ''Specifically: near line 1'',
            d_severity = Error, d_source = Some ''ahk-alpha'', d_code = None\<rparr>"
  by (simp add: oddReport_def convertAlphaDiagnostic_def mkRange_def mkPosition_def isBefore_def
      endCharacter_def alphaMessage_def truthy_def mkDiagnostic_def toVsCodeSeverity_def)

lemma reports_accepted:
  "acceptedAlpha (\<lambda>p. p) workspaceIndex mainUri [oddReport, backwardReport]
     = [oddReport, backwardReport]"
  by (simp add: acceptedAlpha_def oddReport_def backwardReport_def mainUri_def
      isWildcardImportSymbolWarning_def)

lemma reports_messages:
  "alphaMessage oddReport \<noteq> []" "alphaMessage backwardReport \<noteq> []"
  by (simp_all add: alphaMessage_def oddReport_def backwardReport_def truthy_def)

theorem convert_clamps_witness:
  "alphaMessage backwardReport \<noteq> []
   \<and> a_severity oddReport = ''fatal''
   \<and> map_sum id d_severity (convertAlphaDiagnostic oddReport) = Inr Error
   \<and> map_sum id d_range (convertAlphaDiagnostic backwardReport)
       = Inr \<lparr>r_start = \<lparr>line = 0, character = 999\<rparr>, r_end = \<lparr>line = 4, character = 2\<rparr>\<rparr>
   \<and> (\<exists>agg'. setAlphaDiagnostics (\<lambda>p. p) workspaceIndex newAggregator mainUri
                 [oddReport, backwardReport] = Inr agg'
          \<and> length (getDiagnosticsFromSource agg' mainUri Alpha) = 2)"
proof -
  note one = convert_clamps [of backwardReport "\<lambda>p. p" workspaceIndex mainUri
      "[oddReport, backwardReport]" newAggregator, THEN conjunct1]
  note odd = convert_clamps [of oddReport "\<lambda>p. p" workspaceIndex mainUri
      "[oddReport, backwardReport]" newAggregator, THEN conjunct1]
  note all = convert_clamps [of backwardReport "\<lambda>p. p" workspaceIndex mainUri
      "[oddReport, backwardReport]" newAggregator, THEN conjunct2]
  have swapped: "map_sum id d_range (convertAlphaDiagnostic backwardReport)
       = Inr \<lparr>r_start = \<lparr>line = 0, character = 999\<rparr>, r_end = \<lparr>line = 4, character = 2\<rparr>\<rparr>"
    using one reports_messages(2)
    by (auto simp: backwardReport_def isBefore_def Let_def)
  have sev: "map_sum id d_severity (convertAlphaDiagnostic oddReport) = Inr Error"
    using odd reports_messages(1)
    by (auto simp: oddReport_def)
  have batch: "\<exists>agg'. setAlphaDiagnostics (\<lambda>p. p) workspaceIndex newAggregator mainUri
                 [oddReport, backwardReport] = Inr agg'
          \<and> length (getDiagnosticsFromSource agg' mainUri Alpha) = 2"
    using all reports_messages by (auto simp: reports_accepted)
  show ?thesis
    using swapped sev batch reports_messages(2) by (simp add: oddReport_def)
qed

lemma acceptedAlpha_append:
  "acceptedAlpha pn idx uri (xs @ ys) = acceptedAlpha pn idx uri xs @ acceptedAlpha pn idx uri ys"
  by (simp add: acceptedAlpha_def)

lemma acceptedAlpha_Cons:
  "acceptedAlpha pn idx uri (d # ys) =
     (if normalizeFilePath pn (a_file d) = normalizeFilePath pn (fsPath uri)
         \<and> \<not> isWildcardImportSymbolWarning idx uri d
      then d # acceptedAlpha pn idx uri ys else acceptedAlpha pn idx uri ys)"
  by (simp add: acceptedAlpha_def)

text \<open>
  C9. When \<^verbatim>\<open>setAlphaDiagnostics(uri, reports)\<close> returns, the list stored for the document
  and the runtime source holds the conversions of exactly the reports whose normalized
  file path is that of the document and that are not suppressed. A report with another
  normalized path leaves no trace: the outcome of the call is the same as if the report
  had not been in the list. The lists of every other document and of every other source
  are what they were, in the aggregator's map and in the editor's collections. The call
  returns exactly when each report that passes the filters has a message.
\<close>

theorem alpha_other_file_discarded:
  "(\<forall>agg'. setAlphaDiagnostics pn idx agg uri raws = Inr agg' \<longrightarrow>
      map Inr (getDiagnosticsFromSource agg' uri Alpha)
        = map convertAlphaDiagnostic
            (filter (\<lambda>d. normalizeFilePath pn (a_file d) = normalizeFilePath pn (fsPath uri)
                          \<and> \<not> isWildcardImportSymbolWarning idx uri d) raws))
   \<and> (normalizeFilePath pn (a_file d) \<noteq> normalizeFilePath pn (fsPath uri)
        \<longrightarrow> setAlphaDiagnostics pn idx agg uri (xs @ d # ys)
             = setAlphaDiagnostics pn idx agg uri (xs @ ys))
   \<and> (\<forall>agg' uri' src. setAlphaDiagnostics pn idx agg uri raws = Inr agg'
          \<and> (normalizeUri uri' \<noteq> normalizeUri uri \<or> src \<noteq> Alpha)
        \<longrightarrow> getDiagnosticsFromSource agg' uri' src = getDiagnosticsFromSource agg uri' src)
   \<and> (\<forall>agg' k. setAlphaDiagnostics pn idx agg uri raws = Inr agg' \<and> k \<noteq> normalizeUri uri
        \<longrightarrow> map_of (diagnostics agg') k = map_of (diagnostics agg) k)
   \<and> (\<forall>agg' src. setAlphaDiagnostics pn idx agg uri raws = Inr agg' \<and> src \<noteq> Alpha
        \<longrightarrow> map_of (collections agg') src = map_of (collections agg) src)
   \<and> ((\<exists>agg'. setAlphaDiagnostics pn idx agg uri raws = Inr agg')
        \<longleftrightarrow> (\<forall>r\<in>set (filter (\<lambda>d. normalizeFilePath pn (a_file d)
                                       = normalizeFilePath pn (fsPath uri)
                                     \<and> \<not> isWildcardImportSymbolWarning idx uri d) raws).
               alphaMessage r \<noteq> []))"
proof -
  have acc: "acceptedAlpha pn idx uri raws
     = filter (\<lambda>d. normalizeFilePath pn (a_file d) = normalizeFilePath pn (fsPath uri)
                          \<and> \<not> isWildcardImportSymbolWarning idx uri d) raws"
    by (simp add: acceptedAlpha_def conj_commute)
  have stored: "map Inr (getDiagnosticsFromSource agg' uri Alpha)
        = map convertAlphaDiagnostic
            (filter (\<lambda>d. normalizeFilePath pn (a_file d) = normalizeFilePath pn (fsPath uri)
                          \<and> \<not> isWildcardImportSymbolWarning idx uri d) raws)"
    if "setAlphaDiagnostics pn idx agg uri raws = Inr agg'" for agg'
    using stored_setAlphaDiagnostics [OF that] by (simp only: acc)
  have dropped: "setAlphaDiagnostics pn idx agg uri (xs @ d # ys)
             = setAlphaDiagnostics pn idx agg uri (xs @ ys)"
    if "normalizeFilePath pn (a_file d) \<noteq> normalizeFilePath pn (fsPath uri)"
    using that
    by (simp add: setAlphaDiagnostics_accepted acceptedAlpha_append acceptedAlpha_Cons)
  have others: "getDiagnosticsFromSource agg' uri' src = getDiagnosticsFromSource agg uri' src"
    if "setAlphaDiagnostics pn idx agg uri raws = Inr agg'
          \<and> (normalizeUri uri' \<noteq> normalizeUri uri \<or> src \<noteq> Alpha)" for agg' uri' src
    using that by (auto simp: setAlphaDiagnostics_Inr stored_setDiagnostics_other)
  have keys: "map_of (diagnostics agg') k = map_of (diagnostics agg) k"
    if "setAlphaDiagnostics pn idx agg uri raws = Inr agg' \<and> k \<noteq> normalizeUri uri" for agg' k
    using that by (auto simp: setAlphaDiagnostics_Inr setDiagnostics_store update_conv)
  have colls: "map_of (collections agg') src = map_of (collections agg) src"
    if "setAlphaDiagnostics pn idx agg uri raws = Inr agg' \<and> src \<noteq> Alpha" for agg' src
    using that
    by (auto simp: setAlphaDiagnostics_Inr setDiagnostics_def Let_def update_conv
        split: option.splits)
  have returns: "(\<exists>agg'. setAlphaDiagnostics pn idx agg uri raws = Inr agg')
        \<longleftrightarrow> (\<forall>r\<in>set (filter (\<lambda>d. normalizeFilePath pn (a_file d)
                                       = normalizeFilePath pn (fsPath uri)
                                     \<and> \<not> isWildcardImportSymbolWarning idx uri d) raws).
               alphaMessage r \<noteq> [])"
    using setAlphaDiagnostics_returns [of pn idx agg uri raws] by (simp only: acc)
  show ?thesis
    by (intro conjI allI impI) (rule stored dropped others keys colls returns; assumption)+
qed

lemma lowered_paths:
  "toLowerCase ''/ws/Main.ahk'' = ''/ws/main.ahk''"
  "toLowerCase ''/ws/Other.ahk'' = ''/ws/other.ahk''"
  "normalizeUri (Uri ''/ws/Other.ahk'') = ''/ws/other.ahk''"
  by code_simp+

theorem alpha_other_file_discarded_witness:
  "setAlphaDiagnostics (\<lambda>p. p) workspaceIndex newAggregator mainUri
     [warningFor ''/ws/Other.ahk'' ''Max'', warningFor ''/ws/Main.ahk'' ''Max'']
     = setAlphaDiagnostics (\<lambda>p. p) workspaceIndex newAggregator mainUri
         [warningFor ''/ws/Main.ahk'' ''Max'']
   \<and> (\<exists>agg'. setAlphaDiagnostics (\<lambda>p. p) workspaceIndex newAggregator mainUri
                [warningFor ''/ws/Other.ahk'' ''Max'', warningFor ''/ws/Main.ahk'' ''Max'']
                = Inr agg'
          \<and> getDiagnosticsFromSource agg' (Uri ''/ws/Other.ahk'') Alpha = [])
   \<and> normalizeFilePath (\<lambda>p. p) (a_file (warningFor ''/ws/Other.ahk'' ''Max'')) = ''/ws/other.ahk''
   \<and> normalizeFilePath (\<lambda>p. p) (fsPath mainUri) = ''/ws/main.ahk''"
proof -
  let ?foreign = "warningFor ''/ws/Other.ahk'' ''Max''"
  let ?own = "warningFor ''/ws/Main.ahk'' ''Max''"
  have paths: "normalizeFilePath (\<lambda>p. p) (a_file ?foreign) = ''/ws/other.ahk''"
    "normalizeFilePath (\<lambda>p. p) (fsPath mainUri) = ''/ws/main.ahk''"
    by (simp_all add: normalizeFilePath_def warningFor_def mainUri_def lowered_paths)
  have keys: "normalizeUri (Uri ''/ws/Other.ahk'') \<noteq> normalizeUri mainUri"
    by (simp add: lowered_paths normalizeUri_mainUri)
  have none: "getDiagnosticsFromSource newAggregator (Uri ''/ws/Other.ahk'') Alpha = []"
    by (simp add: getDiagnosticsFromSource_def newAggregator_def)
  have msgs: "\<forall>r\<in>set [?foreign, ?own]. alphaMessage r \<noteq> []"
    by (simp add: alphaMessage_def warningFor_def truthy_def neverAssignedMessage_def)
  note t = alpha_other_file_discarded
      [of "\<lambda>p. p" workspaceIndex newAggregator mainUri "[?foreign, ?own]" ?foreign "[]" "[?own]"]
  have dropped: "setAlphaDiagnostics (\<lambda>p. p) workspaceIndex newAggregator mainUri [?foreign, ?own]
     = setAlphaDiagnostics (\<lambda>p. p) workspaceIndex newAggregator mainUri [?own]"
    using t [THEN conjunct1] t [THEN conjunct2, THEN conjunct1] paths by simp
  obtain agg' where ret:
    "setAlphaDiagnostics (\<lambda>p. p) workspaceIndex newAggregator mainUri [?foreign, ?own] = Inr agg'"
  proof -
    have "\<forall>r\<in>set (filter (\<lambda>d. normalizeFilePath (\<lambda>p. p) (a_file d)
                                       = normalizeFilePath (\<lambda>p. p) (fsPath mainUri)
                                     \<and> \<not> isWildcardImportSymbolWarning workspaceIndex mainUri d)
                     [?foreign, ?own]). alphaMessage r \<noteq> []"
      using msgs by (meson filter_is_subset subsetD)
    then have "\<exists>agg'. setAlphaDiagnostics (\<lambda>p. p) workspaceIndex newAggregator mainUri
                      [?foreign, ?own] = Inr agg'"
      by (rule t [THEN conjunct2, THEN conjunct2, THEN conjunct2, THEN conjunct2,
                  THEN conjunct2, THEN iffD2])
    then show ?thesis using that by blast
  qed
  have "getDiagnosticsFromSource agg' (Uri ''/ws/Other.ahk'') Alpha
        = getDiagnosticsFromSource newAggregator (Uri ''/ws/Other.ahk'') Alpha"
    using t [THEN conjunct2, THEN conjunct2, THEN conjunct1] ret keys by blast
  then have other: "getDiagnosticsFromSource agg' (Uri ''/ws/Other.ahk'') Alpha = []"
    by (simp only: none)
  have "\<exists>agg'. setAlphaDiagnostics (\<lambda>p. p) workspaceIndex newAggregator mainUri
                [?foreign, ?own] = Inr agg'
          \<and> getDiagnosticsFromSource agg' (Uri ''/ws/Other.ahk'') Alpha = []"
    using ret other by blast
  then show ?thesis
    using dropped paths by blast
qed




















end
